theory Spec2Isabelle
  imports Main "HOL-Library.AList"
begin

section \<open>The POSIX flavour of Node's path module\<close>

text \<open>
  The sources call \<^verbatim>\<open>path.dirname\<close>, \<^verbatim>\<open>path.basename\<close>, \<^verbatim>\<open>path.join\<close> and split on
  \<^verbatim>\<open>path.sep\<close>. They are modelled on strings, for the POSIX separator. A JavaScript
  \<^verbatim>\<open>number\<close> that counts directory levels is an \<open>int\<close>, so that a negative level is
  an input like any other.
\<close>

definition path_sep :: char where
  "path_sep = CHR ''/''"

text \<open>\<^verbatim>\<open>String.prototype.split(sep)\<close>: the empty string splits into one empty piece.\<close>

fun split_on :: "char \<Rightarrow> string \<Rightarrow> string list" where
  "split_on c [] = [[]]"
| "split_on c (x # xs) =
     (if x = c then [] # split_on c xs
      else (case split_on c xs of
              [] \<Rightarrow> [[x]]
            | w # ws \<Rightarrow> (x # w) # ws))"

text \<open>\<^verbatim>\<open>Array.prototype.join(sep)\<close>.\<close>

fun join_with :: "char \<Rightarrow> string list \<Rightarrow> string" where
  "join_with c [] = []"
| "join_with c [x] = x"
| "join_with c (x # y # ys) = x @ c # join_with c (y # ys)"

text \<open>
  \<^verbatim>\<open>path.dirname\<close>: the scan runs from the last character down to index 1, skips the
  trailing separators, then the last segment, and cuts at the separator before it.
\<close>

definition path_dirname :: "string \<Rightarrow> string" where
  "path_dirname p =
     (if p = [] then ''.''
      else
        let hasRoot = (hd p = path_sep);
            r1 = dropWhile (\<lambda>c. c = path_sep) (rev (tl p));
            r2 = dropWhile (\<lambda>c. c \<noteq> path_sep) r1
        in if r2 = [] then (if hasRoot then ''/'' else ''.'')
           else if hasRoot \<and> length r2 = 1 then ''//''
           else take (length r2) p)"

text \<open>\<^verbatim>\<open>path.basename\<close> without a suffix: the last segment, trailing separators dropped.\<close>

definition path_basename :: "string \<Rightarrow> string" where
  "path_basename p =
     rev (takeWhile (\<lambda>c. c \<noteq> path_sep) (dropWhile (\<lambda>c. c = path_sep) (rev p)))"

text \<open>
  \<^verbatim>\<open>normalizeString\<close> resolves the segments from left to right: an empty segment and
  \<^verbatim>\<open>.\<close> are dropped, \<^verbatim>\<open>..\<close> removes the segment before it, and is kept only where a
  relative path climbs above its start.
\<close>

definition push_segment :: "bool \<Rightarrow> string list \<Rightarrow> string \<Rightarrow> string list" where
  "push_segment allowAboveRoot res seg =
     (if seg = [] \<or> seg = ''.'' then res
      else if seg = ''..'' then
        (if res \<noteq> [] \<and> last res \<noteq> ''..'' then butlast res
         else if allowAboveRoot then res @ [''..'']
         else res)
      else res @ [seg])"

definition normalize_segments :: "bool \<Rightarrow> string list \<Rightarrow> string list" where
  "normalize_segments allowAboveRoot segs = foldl (push_segment allowAboveRoot) [] segs"

definition path_normalize :: "string \<Rightarrow> string" where
  "path_normalize p =
     (if p = [] then ''.''
      else
        let isAbsolute = (hd p = path_sep);
            trailingSeparator = (last p = path_sep);
            s = join_with path_sep (normalize_segments (\<not> isAbsolute) (split_on path_sep p))
        in if s = [] then (if isAbsolute then ''/'' else if trailingSeparator then ''./'' else ''.'')
           else (if isAbsolute then ''/'' else []) @ s @ (if trailingSeparator then ''/'' else []))"

text \<open>\<^verbatim>\<open>path.join(...args)\<close>: the non-empty arguments, joined and normalised.\<close>

definition path_join :: "string list \<Rightarrow> string" where
  "path_join args =
     (let joined = filter (\<lambda>a. a \<noteq> []) args
      in if joined = [] then ''.'' else path_normalize (join_with path_sep joined))"

section \<open>strip\_dirs.ts\<close>

text \<open>The loop \<^verbatim>\<open>for(let i = 0; i < level; i++) dirs.pop()\<close>; popping an empty array leaves it empty.\<close>

function pop_loop :: "int \<Rightarrow> int \<Rightarrow> 'a list \<Rightarrow> 'a list" where
  "pop_loop i level dirs = (if i < level then pop_loop (i + 1) level (butlast dirs) else dirs)"
  by pat_completeness auto
termination
  by (relation "measure (\<lambda>(i, level, dirs). nat (level - i))") auto

declare pop_loop.simps [simp del]

definition stripDirs :: "string \<Rightarrow> int \<Rightarrow> string" where
  "stripDirs dir level =
     (let dirs = split_on path_sep (path_dirname dir);
          base = path_basename dir
      in if int (length dirs) < level then path_join (dirs @ [base])
         else path_join (pop_loop 0 level dirs @ [base]))"

text \<open>
  A plain segment is a file or directory name as a directory listing returns it: not
  empty, free of the separator, and neither \<^verbatim>\<open>.\<close> nor \<^verbatim>\<open>..\<close>.
\<close>

definition plain_segment :: "string \<Rightarrow> bool" where
  "plain_segment s = (s \<noteq> [] \<and> path_sep \<notin> set s \<and> s \<noteq> ''.'' \<and> s \<noteq> ''..'')"

section \<open>The builder's configuration\<close>

type_synonym Platform = string
type_synonym Arch = string

record Source =
  os :: Platform
  arch :: Arch
  url :: string

record Remap =
  remap_src :: string
  remap_dest :: "string option"

record Command =
  cmd :: string
  args :: "string list option"

record BinBuilder =
  sources :: "Source list"
  destination :: string
  downloaded :: "string list"
  cmds :: "Command list"
  fileRemaps :: "Remap list"

text \<open>\<^verbatim>\<open>process.platform\<close> and \<^verbatim>\<open>process.arch\<close>, read when a method runs.\<close>

record host =
  platform :: Platform
  host_arch :: Arch

definition new_BinBuilder :: BinBuilder where
  "new_BinBuilder = \<lparr>sources = [], destination = [], downloaded = [], cmds = [], fileRemaps = []\<rparr>"

text \<open>
  \<^verbatim>\<open>src(url, os = process.platform, arch = process.arch)\<close>: an argument left out is
  \<open>None\<close>, and its default is evaluated by the call.
\<close>

definition src :: "host \<Rightarrow> string \<Rightarrow> Platform option \<Rightarrow> Arch option \<Rightarrow> BinBuilder \<Rightarrow> BinBuilder" where
  "src h u os_arg arch_arg b =
     b\<lparr>sources := sources b @
        [\<lparr>os = (case os_arg of None \<Rightarrow> platform h | Some p \<Rightarrow> p),
          arch = (case arch_arg of None \<Rightarrow> host_arch h | Some a \<Rightarrow> a),
          url = u\<rparr>]\<rparr>"

definition getSrcs :: "host \<Rightarrow> BinBuilder \<Rightarrow> Source list" where
  "getSrcs h b = filter (\<lambda>s. os s = platform h \<and> arch s = host_arch h) (sources b)"

text \<open>
  A sequence of registrations: each call of \<open>src\<close> with the host it ran on, the url and
  the optional platform and architecture.
\<close>

type_synonym registration = "host \<times> string \<times> Platform option \<times> Arch option"

definition register_all :: "registration list \<Rightarrow> BinBuilder \<Rightarrow> BinBuilder" where
  "register_all regs b = foldl (\<lambda>b (h, u, o_arg, a_arg). src h u o_arg a_arg b) b regs"

definition registered_source :: "registration \<Rightarrow> Source" where
  "registered_source r =
     (case r of (h, u, o_arg, a_arg) \<Rightarrow>
        \<lparr>os = (case o_arg of None \<Rightarrow> platform h | Some p \<Rightarrow> p),
         arch = (case a_arg of None \<Rightarrow> host_arch h | Some a \<Rightarrow> a),
         url = u\<rparr>)"

section \<open>Errors, the filesystem and the world\<close>

text \<open>
  Every \<^verbatim>\<open>throw new Error(...)\<close> of the sources is a constructor that carries the values
  its message interpolates; \<open>SysError\<close> is a failed filesystem call with its code and path,
  \<open>ExecaError\<close> the rejection of \<^verbatim>\<open>execa\<close> for a command that exits with a code other
  than 0, with the command and the code, and \<open>ExternalError\<close> an exception raised inside a
  collaborator (HTTP transport, archive decoder, process launch, type sniffer).
\<close>

datatype errno = ENOENT | ENOTDIR | EEXIST | EISDIR | ENOTEMPTY | EINVAL

datatype error =
    SysError errno string
  | HTTPError int string
  | EmptyBody
  | DownloadError string error
  | UnsupportedFormat string string
  | StripError int string error
  | NoBinary string
  | BuildError string int
  | ExecaError string int
  | DestinationNotDirectory string
  | ExternalError string

text \<open>A directory lists its entries in order; a file holds its bytes.\<close>

datatype fsnode = File string | Dir "(string \<times> fsnode) list"

fun is_dir :: "fsnode \<Rightarrow> bool" where
  "is_dir (Dir entries) = True"
| "is_dir (File content) = False"

text \<open>
  The calls that leave the process, and the invocations of the download pipeline, are
  recorded in order, as a test spy would.
\<close>

datatype event =
    Fetch string
  | CopyFile string string
  | TarExtract string string "int option"
  | ZipExtract string string
  | Rename string string
  | Exec Command string
  | Invoke string string "int option"

record world =
  root :: fsnode
  cwd :: "string list"
  trace :: "event list"

type_synonym 'a io = "world \<Rightarrow> (error + 'a) \<times> world"

definition log_event :: "event \<Rightarrow> world \<Rightarrow> world" where
  "log_event e w = w\<lparr>trace := trace w @ [e]\<rparr>"

text \<open>A path names the segments from the root; a relative one starts at the working directory.\<close>

definition resolve :: "world \<Rightarrow> string \<Rightarrow> string list" where
  "resolve w p =
     normalize_segments False
       ((if p \<noteq> [] \<and> hd p = path_sep then [] else cwd w) @ split_on path_sep p)"

text \<open>A path that ends with the separator names a directory.\<close>

definition names_dir :: "string \<Rightarrow> bool" where
  "names_dir p = (p \<noteq> [] \<and> last p = path_sep)"

primrec node_at :: "string list \<Rightarrow> fsnode \<Rightarrow> errno + fsnode" where
  "node_at [] n = Inr n"
| "node_at (c # cs) n =
     (case n of
        File content \<Rightarrow> Inl ENOTDIR
      | Dir entries \<Rightarrow>
          (case map_of entries c of
             None \<Rightarrow> Inl ENOENT
           | Some child \<Rightarrow> node_at cs child))"

text \<open>
  What a system call finds at a path: the empty path names nothing (\<^verbatim>\<open>ENOENT\<close>), and a
  path with a trailing separator does not name a file (\<^verbatim>\<open>ENOTDIR\<close>).
\<close>

definition lookup :: "world \<Rightarrow> string \<Rightarrow> errno + fsnode" where
  "lookup w p =
     (if p = [] then Inl ENOENT
      else (case node_at (resolve w p) (root w) of
              Inl e \<Rightarrow> Inl e
            | Inr n \<Rightarrow> if names_dir p \<and> \<not> is_dir n then Inl ENOTDIR else Inr n))"

text \<open>\<open>put_at\<close> stores a node under an existing parent directory, replacing what is there.\<close>

primrec put_at :: "string list \<Rightarrow> fsnode \<Rightarrow> fsnode \<Rightarrow> errno + fsnode" where
  "put_at [] new n = Inl EINVAL"
| "put_at (c # cs) new n =
     (case n of
        File content \<Rightarrow> Inl ENOTDIR
      | Dir entries \<Rightarrow>
          if cs = [] then Inr (Dir (AList.update c new entries))
          else (case map_of entries c of
                  None \<Rightarrow> Inl ENOENT
                | Some child \<Rightarrow>
                    (case put_at cs new child of
                       Inl e \<Rightarrow> Inl e
                     | Inr child' \<Rightarrow> Inr (Dir (AList.update c child' entries)))))"

primrec remove_at :: "string list \<Rightarrow> fsnode \<Rightarrow> errno + fsnode" where
  "remove_at [] n = Inl EINVAL"
| "remove_at (c # cs) n =
     (case n of
        File content \<Rightarrow> Inl ENOTDIR
      | Dir entries \<Rightarrow>
          (case map_of entries c of
             None \<Rightarrow> Inl ENOENT
           | Some child \<Rightarrow>
               if cs = [] then Inr (Dir (AList.delete c entries))
               else (case remove_at cs child of
                       Inl e \<Rightarrow> Inl e
                     | Inr child' \<Rightarrow> Inr (Dir (AList.update c child' entries)))))"

text \<open>\<^verbatim>\<open>mkdir\<close> with \<^verbatim>\<open>recursive: true\<close>: missing directories are created, existing ones kept.\<close>

primrec mkdir_p :: "string list \<Rightarrow> fsnode \<Rightarrow> errno + fsnode" where
  "mkdir_p [] n = (case n of File content \<Rightarrow> Inl EEXIST | Dir entries \<Rightarrow> Inr n)"
| "mkdir_p (c # cs) n =
     (case n of
        File content \<Rightarrow> Inl ENOTDIR
      | Dir entries \<Rightarrow>
          (case mkdir_p cs (case map_of entries c of None \<Rightarrow> Dir [] | Some child \<Rightarrow> child) of
             Inl e \<Rightarrow> Inl e
           | Inr child' \<Rightarrow> Inr (Dir (AList.update c child' entries))))"

definition fs_mkdir_p :: "string \<Rightarrow> unit io" where
  "fs_mkdir_p p w =
     (if p = [] then (Inl (SysError ENOENT p), w)
      else (case mkdir_p (resolve w p) (root w) of
              Inl e \<Rightarrow> (Inl (SysError e p), w)
            | Inr r \<Rightarrow> (Inr (), w\<lparr>root := r\<rparr>)))"

text \<open>
  Where a call may create or overwrite a file: not at the empty path, not at a directory,
  and not at a path with a trailing separator.
\<close>

definition file_target :: "world \<Rightarrow> string \<Rightarrow> errno + string list" where
  "file_target w p =
     (if p = [] then Inl ENOENT
      else (case node_at (resolve w p) (root w) of
              Inr (Dir entries) \<Rightarrow> Inl EISDIR
            | Inr (File content) \<Rightarrow> if names_dir p then Inl ENOTDIR else Inr (resolve w p)
            | Inl e \<Rightarrow> if e = ENOENT \<and> names_dir p then Inl EISDIR else Inr (resolve w p)))"

text \<open>
  \<^verbatim>\<open>rename(2)\<close>: the source must exist; the target is not the empty path, and has a
  trailing separator only for a directory; a target inside the source is refused; an
  existing target must be of the same kind as the source and, if a directory, empty; the
  target's parent must exist. The node then moves as one unit.
\<close>

definition rename_refused :: "fsnode \<Rightarrow> errno + fsnode \<Rightarrow> errno option" where
  "rename_refused moved target =
     (case target of
        Inl e \<Rightarrow> (if e = ENOENT then None else Some e)
      | Inr (File content) \<Rightarrow> (if is_dir moved then Some ENOTDIR else None)
      | Inr (Dir entries) \<Rightarrow>
          (if \<not> is_dir moved then Some EISDIR
           else if entries \<noteq> [] then Some ENOTEMPTY
           else None))"

definition fs_rename :: "string \<Rightarrow> string \<Rightarrow> unit io" where
  "fs_rename old new w =
     (let from = resolve w old;
          to = resolve w new;
          w1 = log_event (Rename old new) w
      in case lookup w old of
           Inl e \<Rightarrow> (Inl (SysError e old), w1)
         | Inr moved \<Rightarrow>
             if new = [] then (Inl (SysError ENOENT new), w1)
             else if names_dir new \<and> \<not> is_dir moved then (Inl (SysError ENOTDIR new), w1)
             else if from = to then (Inr (), w1)
             else if take (length from) to = from then (Inl (SysError EINVAL old), w1)
             else (case rename_refused moved (node_at to (root w)) of
                     Some e \<Rightarrow> (Inl (SysError e new), w1)
                   | None \<Rightarrow>
                       (case remove_at from (root w) of
                          Inl e \<Rightarrow> (Inl (SysError e old), w1)
                        | Inr r1 \<Rightarrow>
                            (case put_at to moved r1 of
                               Inl e \<Rightarrow> (Inl (SysError e new), w1)
                             | Inr r2 \<Rightarrow> (Inr (), w1\<lparr>root := r2\<rparr>)))))"

section \<open>The collaborators\<close>

record URL =
  protocol :: string
  pathname :: string

text \<open>A response body is a stream: it delivers all its bytes, or some and then an error.\<close>

datatype body = Complete string | Broken string string

record Response =
  ok :: bool
  status :: int
  statusText :: string
  resp_body :: "body option"

text \<open>
  What the sources import from outside the repository, or from files of it that are not
  among the sources: \<^verbatim>\<open>new URL\<close> (\<open>None\<close> when it throws), \<^verbatim>\<open>fetch\<close>, the type sniffer
  \<^verbatim>\<open>getType\<close>, the tar and zip decoders, \<^verbatim>\<open>execa\<close>, and the names that the temporary
  file and directory tasks allocate. A decoder or a command reads the world and returns
  the filesystem it leaves behind.
\<close>

record env =
  parse_url :: "string \<Rightarrow> URL option"
  http_get :: "string \<Rightarrow> world \<Rightarrow> error + Response"
  getType :: "string \<Rightarrow> world \<Rightarrow> error + string"
  tar_decoder :: "string \<Rightarrow> string \<Rightarrow> int option \<Rightarrow> world \<Rightarrow> (error + unit) \<times> fsnode"
  zip_decoder :: "string \<Rightarrow> string \<Rightarrow> world \<Rightarrow> (error + unit) \<times> fsnode"
  run_process :: "Command \<Rightarrow> string \<Rightarrow> world \<Rightarrow> (error + int) \<times> fsnode"
  temp_file_name :: "world \<Rightarrow> string"
  temp_dir_name :: "world \<Rightarrow> string"

section \<open>unarchive.ts\<close>

datatype ArchiveFormat = Tar | Zip

text \<open>\<^verbatim>\<open>path.resolve(dest)\<close>: the absolute path of \<open>dest\<close>.\<close>

definition path_resolve :: "world \<Rightarrow> string \<Rightarrow> string" where
  "path_resolve w p = path_sep # join_with path_sep (resolve w p)"

definition extractTar :: "env \<Rightarrow> string \<Rightarrow> string \<Rightarrow> int option \<Rightarrow> unit io" where
  "extractTar ev filepath dest strip w =
     (case tar_decoder ev filepath dest strip w of
        (res, r) \<Rightarrow> (res, (log_event (TarExtract filepath dest strip) w)\<lparr>root := r\<rparr>))"

text \<open>
  \<open>walkDir\<close> on the directory tree found at \<open>filepath\<close>: \<^verbatim>\<open>readdir\<close> of
  \<^verbatim>\<open>path.join(filepath, entry.name)\<close> lists the entries of that entry. \<open>walkLoop\<close> is the
  \<^verbatim>\<open>for\<close> loop over the entries, with the result array so far.
\<close>

fun walkDir :: "fsnode \<Rightarrow> string \<Rightarrow> int \<Rightarrow> int \<Rightarrow> error + string list"
  and walkLoop :: "(string \<times> fsnode) list \<Rightarrow> string \<Rightarrow> int \<Rightarrow> int \<Rightarrow> string list \<Rightarrow> error + string list"
  where
  "walkDir (File content) filepath maxDepth currDepth =
     (if currDepth > maxDepth then Inr [] else Inl (SysError ENOTDIR filepath))"
| "walkDir (Dir entries) filepath maxDepth currDepth =
     (if currDepth > maxDepth then Inr [] else walkLoop entries filepath maxDepth currDepth [])"
| "walkLoop [] filepath maxDepth currDepth res = Inr res"
| "walkLoop ((name, File content) # rest) filepath maxDepth currDepth res =
     walkLoop rest filepath maxDepth currDepth (res @ [path_join [filepath, name]])"
| "walkLoop ((name, Dir sub) # rest) filepath maxDepth currDepth res =
     (if currDepth + 1 < maxDepth then
        (case walkDir (Dir sub) (path_join [filepath, name]) maxDepth (currDepth + 1) of
           Inl err \<Rightarrow> Inl err
         | Inr found \<Rightarrow> walkLoop rest filepath maxDepth currDepth (res @ found))
      else walkLoop rest filepath maxDepth currDepth (res @ [path_join [filepath, name]]))"

text \<open>The call \<^verbatim>\<open>walkDir(dest, strip+1)\<close>: the depth test, then the directory read from the world.\<close>

definition walkDir_from :: "world \<Rightarrow> string \<Rightarrow> int \<Rightarrow> error + string list" where
  "walkDir_from w filepath maxDepth =
     (if 0 > maxDepth then Inr []
      else (case lookup w filepath of
              Inl e \<Rightarrow> Inl (SysError e filepath)
            | Inr node \<Rightarrow> walkDir node filepath maxDepth 0))"

text \<open>The loop over the leaves: the first failing rename ends it with a wrapped error.\<close>

fun strip_leaves :: "int \<Rightarrow> string list \<Rightarrow> unit io" where
  "strip_leaves strip [] w = (Inr (), w)"
| "strip_leaves strip (leaf # leaves) w =
     (case fs_rename leaf (stripDirs leaf strip) w of
        (Inl err, w1) \<Rightarrow> (Inl (StripError strip leaf err), w1)
      | (Inr u, w1) \<Rightarrow> strip_leaves strip leaves w1)"

definition unzip :: "env \<Rightarrow> string \<Rightarrow> string \<Rightarrow> unit io" where
  "unzip ev filepath dest w =
     (case zip_decoder ev filepath (path_resolve w dest) w of
        (res, r) \<Rightarrow> (res, (log_event (ZipExtract filepath (path_resolve w dest)) w)\<lparr>root := r\<rparr>))"

definition extractZip :: "env \<Rightarrow> string \<Rightarrow> string \<Rightarrow> int option \<Rightarrow> unit io" where
  "extractZip ev filepath dest strip w =
     (case unzip ev filepath dest w of
        (Inl err, w1) \<Rightarrow> (Inl err, w1)
      | (Inr u, w1) \<Rightarrow>
          (case strip of
             None \<Rightarrow> (Inr (), w1)
           | Some s \<Rightarrow>
               (case walkDir_from w1 dest (s + 1) of
                  Inl err \<Rightarrow> (Inl err, w1)
                | Inr leaves \<Rightarrow> strip_leaves s leaves w1)))"

text \<open>
  The function \<^verbatim>\<open>extract\<close> of the source. The type \<^verbatim>\<open>ArchiveFormat\<close> has two values, so
  the \<^verbatim>\<open>default\<close> branch has no input.
\<close>

definition extract_archive :: "env \<Rightarrow> string \<Rightarrow> string \<Rightarrow> ArchiveFormat \<Rightarrow> int option \<Rightarrow> unit io" where
  "extract_archive ev filepath dest format strip =
     (case format of
        Tar \<Rightarrow> extractTar ev filepath dest strip
      | Zip \<Rightarrow> extractZip ev filepath dest strip)"

text \<open>
  Every entry below a directory, in the order of the walk, with its path, its depth below
  the directory (its own entries are at depth 1) and whether it is a directory.
\<close>

fun all_entries :: "fsnode \<Rightarrow> string \<Rightarrow> nat \<Rightarrow> (string \<times> nat \<times> bool) list"
  and all_entries_list :: "(string \<times> fsnode) list \<Rightarrow> string \<Rightarrow> nat \<Rightarrow> (string \<times> nat \<times> bool) list"
  where
  "all_entries (File content) p d = []"
| "all_entries (Dir entries) p d = all_entries_list entries p d"
| "all_entries_list [] p d = []"
| "all_entries_list ((name, node) # rest) p d =
     (path_join [p, name], Suc d, is_dir node)
       # all_entries node (path_join [p, name]) (Suc d) @ all_entries_list rest p d"

text \<open>What the walk with cutoff \<open>m\<close> keeps: a directory at depth \<open>m\<close>, a file at depth \<open>m\<close> or above it.\<close>

fun collected :: "nat \<Rightarrow> string \<times> nat \<times> bool \<Rightarrow> bool" where
  "collected m (p, d, isdir) = (if isdir then d = m else d \<le> m)"

section \<open>download.ts\<close>

text \<open>\<^verbatim>\<open>fs.promises.copyFile\<close>: the source must be a file, the target must not be a directory.\<close>

definition fs_copyFile :: "string \<Rightarrow> string \<Rightarrow> unit io" where
  "fs_copyFile from to w =
     (let w1 = log_event (CopyFile from to) w
      in case lookup w from of
           Inl e \<Rightarrow> (Inl (SysError e from), w1)
         | Inr (Dir entries) \<Rightarrow> (Inl (SysError EISDIR from), w1)
         | Inr (File content) \<Rightarrow>
             (case file_target w to of
                Inl e \<Rightarrow> (Inl (SysError e to), w1)
              | Inr segments \<Rightarrow>
                  (case put_at segments (File content) (root w) of
                     Inl e \<Rightarrow> (Inl (SysError e to), w1)
                   | Inr r \<Rightarrow> (Inr (), w1\<lparr>root := r\<rparr>))))"

text \<open>
  \<^verbatim>\<open>fs.createWriteStream(dest)\<close> opens \<open>dest\<close> with flag \<^verbatim>\<open>w\<close>: the file is created, or
  truncated, and is empty until something is written. A failed open is reported by the
  stream later, so it is returned, not raised.
\<close>

definition createWriteStream :: "string \<Rightarrow> world \<Rightarrow> errno option \<times> world" where
  "createWriteStream dest w =
     (case file_target w dest of
        Inl e \<Rightarrow> (Some e, w)
      | Inr segments \<Rightarrow>
          (case put_at segments (File []) (root w) of
             Inl e \<Rightarrow> (Some e, w)
           | Inr r \<Rightarrow> (None, w\<lparr>root := r\<rparr>)))"

text \<open>Writing through the open stream replaces the content of the file.\<close>

definition write_stream :: "string \<Rightarrow> string \<Rightarrow> world \<Rightarrow> world" where
  "write_stream dest content w =
     (case put_at (resolve w dest) (File content) (root w) of
        Inl e \<Rightarrow> w
      | Inr r \<Rightarrow> w\<lparr>root := r\<rparr>)"

text \<open>\<^verbatim>\<open>try { fs.unlinkSync(dest) } catch(err) {}\<close>: a file is removed, a failure is swallowed.\<close>

definition unlink_quietly :: "string \<Rightarrow> world \<Rightarrow> world" where
  "unlink_quietly dest w =
     (case lookup w dest of
        Inr (File content) \<Rightarrow>
          (case remove_at (resolve w dest) (root w) of
             Inl e \<Rightarrow> w
           | Inr r \<Rightarrow> w\<lparr>root := r\<rparr>)
      | _ \<Rightarrow> w)"

text \<open>\<^verbatim>\<open>pipeline(resp.body, writeStream)\<close> with its \<^verbatim>\<open>catch\<close> handler.\<close>

definition pipeline_to :: "string \<Rightarrow> string \<Rightarrow> body \<Rightarrow> errno option \<Rightarrow> unit io" where
  "pipeline_to u dest b opened w =
     (case opened of
        Some e \<Rightarrow> (Inl (DownloadError u (SysError e dest)), unlink_quietly dest w)
      | None \<Rightarrow>
          (case b of
             Complete content \<Rightarrow> (Inr (), write_stream dest content w)
           | Broken partial err \<Rightarrow>
               (Inl (DownloadError u (ExternalError err)),
                unlink_quietly dest (write_stream dest partial w))))"

definition downloadFromURL :: "env \<Rightarrow> string \<Rightarrow> string \<Rightarrow> unit io" where
  "downloadFromURL ev u dest w =
     (let w1 = log_event (Fetch u) w
      in case http_get ev u w of
           Inl err \<Rightarrow> (Inl err, w1)
         | Inr resp \<Rightarrow>
             (case createWriteStream dest w1 of
                (opened, w2) \<Rightarrow>
                  if \<not> ok resp then (Inl (HTTPError (status resp) (statusText resp)), w2)
                  else (case resp_body resp of
                          None \<Rightarrow> (Inl EmptyBody, w2)
                        | Some b \<Rightarrow> pipeline_to u dest b opened w2)))"

definition isURL :: "env \<Rightarrow> string \<Rightarrow> bool" where
  "isURL ev pathLike = (case parse_url ev pathLike of Some parsed \<Rightarrow> True | None \<Rightarrow> False)"

definition isLocalPath :: "env \<Rightarrow> string \<Rightarrow> bool" where
  "isLocalPath ev pathLike =
     (if isURL ev pathLike then
        (case parse_url ev pathLike of
           Some parsed \<Rightarrow> (if protocol parsed \<noteq> ''file:'' then False else True)
         | None \<Rightarrow> True)
      else True)"

definition trimLocalURL :: "env \<Rightarrow> string \<Rightarrow> string" where
  "trimLocalURL ev pathLike =
     (case parse_url ev pathLike of Some parsed \<Rightarrow> pathname parsed | None \<Rightarrow> pathLike)"

definition copyLocalFile :: "string \<Rightarrow> string \<Rightarrow> unit io" where
  "copyLocalFile from to = fs_copyFile from to"

definition download :: "env \<Rightarrow> string \<Rightarrow> string \<Rightarrow> unit io" where
  "download ev u dest =
     (if isLocalPath ev u then copyLocalFile (trimLocalURL ev u) dest
      else downloadFromURL ev u dest)"

text \<open>
  Modelled from the spec: \<^verbatim>\<open>tempFileTask\<close> and \<^verbatim>\<open>tempDirectoryTask\<close> of
  \<^verbatim>\<open>./tempfile\<close>, which is not among the sources. The task receives the path of a
  uniquely named temporary file or directory; the resource is removed after the task
  settles, whether it completed or raised, and a resource that is no longer there is not
  an error. The outcome of the task is the outcome of the whole. The directory is created
  before the task runs.
\<close>

definition remove_quietly :: "string \<Rightarrow> world \<Rightarrow> world" where
  "remove_quietly p w =
     (if p = [] then w
      else (case remove_at (resolve w p) (root w) of
              Inl e \<Rightarrow> w
            | Inr r \<Rightarrow> w\<lparr>root := r\<rparr>))"

definition tempFileTask :: "env \<Rightarrow> (string \<Rightarrow> 'a io) \<Rightarrow> 'a io" where
  "tempFileTask ev task w =
     (let temp = temp_file_name ev w
      in case task temp w of (res, w1) \<Rightarrow> (res, remove_quietly temp w1))"

definition tempDirectoryTask :: "env \<Rightarrow> (string \<Rightarrow> 'a io) \<Rightarrow> 'a io" where
  "tempDirectoryTask ev task w =
     (let temp = temp_dir_name ev w
      in case fs_mkdir_p temp w of
           (Inl err, w1) \<Rightarrow> (Inl err, w1)
         | (Inr done, w1) \<Rightarrow> (case task temp w1 of (res, w2) \<Rightarrow> (res, remove_quietly temp w2)))"

text \<open>The callback that \<open>downloadAndExtract\<close> hands to \<open>tempFileTask\<close>.\<close>

definition downloadAndExtract_task :: "env \<Rightarrow> string \<Rightarrow> string \<Rightarrow> int option \<Rightarrow> string \<Rightarrow> unit io" where
  "downloadAndExtract_task ev u dest strip temp w =
     (case download ev u temp w of
        (Inl err, w1) \<Rightarrow> (Inl err, w1)
      | (Inr done, w1) \<Rightarrow>
          (case getType ev temp w1 of
             Inl err \<Rightarrow> (Inl err, w1)
           | Inr mime \<Rightarrow>
               if mime = ''application/gzip'' \<or> mime = ''application/x-bzip2''
               then extract_archive ev temp dest Tar strip w1
               else if mime = ''application/zip''
               then extract_archive ev temp dest Zip strip w1
               else (Inl (UnsupportedFormat u mime), w1)))"

definition downloadAndExtract :: "env \<Rightarrow> string \<Rightarrow> string \<Rightarrow> int option \<Rightarrow> unit io" where
  "downloadAndExtract ev u dest strip w =
     tempFileTask ev (downloadAndExtract_task ev u dest strip) (log_event (Invoke u dest strip) w)"

section \<open>The builder\<close>

text \<open>The setters. \<^verbatim>\<open>dest(dest)\<close> refuses a path that exists and is not a directory.\<close>

definition exist :: "string \<Rightarrow> world \<Rightarrow> bool" where
  "exist p w = (case lookup w p of Inr n \<Rightarrow> True | Inl e \<Rightarrow> False)"

definition isDirectory :: "string \<Rightarrow> world \<Rightarrow> errno + bool" where
  "isDirectory p w =
     (case lookup w p of Inr n \<Rightarrow> Inr (is_dir n) | Inl e \<Rightarrow> Inl e)"

definition dest_set :: "string \<Rightarrow> BinBuilder \<Rightarrow> world \<Rightarrow> error + BinBuilder" where
  "dest_set d b w =
     (if exist d w \<and> isDirectory d w \<noteq> Inr True then Inl (DestinationNotDirectory d)
      else Inr (b\<lparr>destination := d\<rparr>))"

definition remaps_set :: "Remap list \<Rightarrow> BinBuilder \<Rightarrow> BinBuilder" where
  "remaps_set rs b = b\<lparr>fileRemaps := rs\<rparr>"

definition commands_set :: "Command list \<Rightarrow> BinBuilder \<Rightarrow> BinBuilder" where
  "commands_set cs b = b\<lparr>cmds := cs\<rparr>"

text \<open>The function \<^verbatim>\<open>exists\<close> at the end of the file: only \<^verbatim>\<open>ENOENT\<close> means absent.\<close>

definition exists_path :: "string \<Rightarrow> world \<Rightarrow> error + bool" where
  "exists_path p w =
     (case lookup w p of
        Inr n \<Rightarrow> Inr True
      | Inl e \<Rightarrow> (if e = ENOENT then Inr False else Inl (SysError e p)))"

definition createDir :: "string \<Rightarrow> unit io" where
  "createDir p = fs_mkdir_p p"

definition ensureExist :: "BinBuilder \<Rightarrow> unit io" where
  "ensureExist b w =
     (case exists_path (destination b) w of
        Inl err \<Rightarrow> (Inl err, w)
      | Inr found \<Rightarrow> (if found then (Inr (), w) else createDir (destination b) w))"

text \<open>
  Modelled from the spec: \<^verbatim>\<open>osArchPair\<close> of \<^verbatim>\<open>./platform\<close>, which is not among the sources:
  the string that combines the platform and the architecture of the host.
\<close>

definition osArchPair :: "host \<Rightarrow> string" where
  "osArchPair h = platform h @ ''-'' @ host_arch h"

text \<open>
  \<^verbatim>\<open>Promise.all(srcs.map(...))\<close>: every pipeline is started, and the whole settles when
  all have succeeded or at the first rejection, with the other pipelines still under way.
  Here the pipelines finish in registration order, which is one of the schedules: those
  after the first that fails are pending when the whole is rejected, and \<open>finish_pending\<close>
  runs them to their end once the task has settled. A pipeline that succeeds pushes its
  url.
\<close>

fun download_each :: "env \<Rightarrow> Source list \<Rightarrow> string \<Rightarrow> BinBuilder \<Rightarrow> world \<Rightarrow> (error + unit) \<times> Source list \<times> BinBuilder \<times> world" where
  "download_each ev [] dest b w = (Inr (), [], b, w)"
| "download_each ev (s # rest) dest b w =
     (case downloadAndExtract ev (url s) dest (Some 1) w of
        (Inl err, w1) \<Rightarrow> (Inl err, rest, b, w1)
      | (Inr done, w1) \<Rightarrow>
          download_each ev rest dest (b\<lparr>downloaded := downloaded b @ [url s]\<rparr>) w1)"

fun finish_pending :: "env \<Rightarrow> Source list \<Rightarrow> string \<Rightarrow> BinBuilder \<Rightarrow> world \<Rightarrow> BinBuilder \<times> world" where
  "finish_pending ev [] dest b w = (b, w)"
| "finish_pending ev (s # rest) dest b w =
     (case downloadAndExtract ev (url s) dest (Some 1) w of
        (Inl err, w1) \<Rightarrow> finish_pending ev rest dest b w1
      | (Inr done, w1) \<Rightarrow>
          finish_pending ev rest dest (b\<lparr>downloaded := downloaded b @ [url s]\<rparr>) w1)"

definition BinBuilder_download :: "env \<Rightarrow> host \<Rightarrow> string \<Rightarrow> BinBuilder \<Rightarrow> world \<Rightarrow> (error + unit) \<times> Source list \<times> BinBuilder \<times> world" where
  "BinBuilder_download ev h dest b w =
     (let srcs = getSrcs h b
      in if length srcs < 1 then (Inl (NoBinary (osArchPair h)), [], b, w)
         else download_each ev srcs dest b w)"

text \<open>
  \<^verbatim>\<open>execa\<close> with its default options: the promise is rejected when the process cannot be
  started and when it exits with a code other than 0, so a result always has exit code 0.
\<close>

definition execa :: "env \<Rightarrow> Command \<Rightarrow> string \<Rightarrow> int io" where
  "execa ev c dir w =
     (case run_process ev c dir w of
        (res, r) \<Rightarrow>
          ((case res of
              Inl err \<Rightarrow> Inl err
            | Inr exitCode \<Rightarrow> if exitCode \<noteq> 0 then Inl (ExecaError (cmd c) exitCode) else Inr exitCode),
           (log_event (Exec c dir) w)\<lparr>root := r\<rparr>))"

text \<open>The loop over \<^verbatim>\<open>this.commands()\<close>.\<close>

fun run_commands :: "env \<Rightarrow> Command list \<Rightarrow> string \<Rightarrow> unit io" where
  "run_commands ev [] buildDir w = (Inr (), w)"
| "run_commands ev (c # rest) buildDir w =
     (case execa ev c buildDir w of
        (Inl err, w1) \<Rightarrow> (Inl err, w1)
      | (Inr exitCode, w1) \<Rightarrow>
          if exitCode \<noteq> 0 then (Inl (BuildError (cmd c) exitCode), w1)
          else run_commands ev rest buildDir w1)"

text \<open>One remap; \<^verbatim>\<open>remap.dest || remap.src\<close> takes \<open>src\<close> for a missing and for an empty \<open>dest\<close>.\<close>

definition remap_one :: "BinBuilder \<Rightarrow> string \<Rightarrow> Remap \<Rightarrow> unit io" where
  "remap_one b buildDir remap w =
     (let from = path_join [buildDir, remap_src remap];
          dst = path_join [destination b,
                  (case remap_dest remap of
                     None \<Rightarrow> remap_src remap
                   | Some d \<Rightarrow> if d = [] then remap_src remap else d)];
          dstDir = path_dirname dst
      in case exists_path dstDir w of
           Inl err \<Rightarrow> (Inl err, w)
         | Inr dstDirExists \<Rightarrow>
             (case (if \<not> dstDirExists then fs_mkdir_p dstDir w else (Inr (), w)) of
                (Inl err, w1) \<Rightarrow> (Inl err, w1)
              | (Inr done, w1) \<Rightarrow> fs_rename from dst w1))"

fun remap_each :: "BinBuilder \<Rightarrow> string \<Rightarrow> Remap list \<Rightarrow> unit io" where
  "remap_each b buildDir [] w = (Inr (), w)"
| "remap_each b buildDir (remap # rest) w =
     (case remap_one b buildDir remap w of
        (Inl err, w1) \<Rightarrow> (Inl err, w1)
      | (Inr done, w1) \<Rightarrow> remap_each b buildDir rest w1)"

text \<open>
  The callback that \<open>build\<close> hands to \<open>tempDirectoryTask\<close>, in two parts: the download and
  the commands, then the remapping. Each returns the pipelines that are pending when it
  ends.
\<close>

definition build_sources :: "env \<Rightarrow> host \<Rightarrow> string \<Rightarrow> BinBuilder \<Rightarrow> world \<Rightarrow> (error + unit) \<times> Source list \<times> BinBuilder \<times> world" where
  "build_sources ev h buildDir b w =
     (case BinBuilder_download ev h buildDir b w of
        (Inl err, pending, b1, w1) \<Rightarrow> (Inl err, pending, b1, w1)
      | (Inr done, pending, b1, w1) \<Rightarrow>
          (case run_commands ev (cmds b1) buildDir w1 of (res, w2) \<Rightarrow> (res, pending, b1, w2)))"

definition remap_files :: "BinBuilder \<Rightarrow> string \<Rightarrow> unit io" where
  "remap_files b buildDir w =
     (if length (fileRemaps b) > 0 then remap_each b buildDir (fileRemaps b) w
      else fs_rename buildDir (destination b) w)"

definition build_task :: "env \<Rightarrow> host \<Rightarrow> string \<Rightarrow> BinBuilder \<Rightarrow> world \<Rightarrow> (error + unit) \<times> Source list \<times> BinBuilder \<times> world" where
  "build_task ev h buildDir b w =
     (case build_sources ev h buildDir b w of
        (Inl err, pending, b1, w1) \<Rightarrow> (Inl err, pending, b1, w1)
      | (Inr done, pending, b1, w1) \<Rightarrow>
          (case remap_files b1 buildDir w1 of (res, w2) \<Rightarrow> (res, pending, b1, w2)))"

text \<open>
  What a call of \<open>build\<close> leaves: how the promise it returned settled, how the promise of
  \<open>tempDirectoryTask\<close> settled if the task was started, and the builder and the world once
  everything has run. \<open>build\<close> awaits \<open>ensureExist\<close>; it calls \<open>tempDirectoryTask\<close> without
  \<^verbatim>\<open>await\<close> or \<^verbatim>\<open>return\<close>, so its own promise resolves with the task still to run.
\<close>

record build_outcome =
  promise :: "error + unit"
  detached :: "(error + unit) option"
  builder :: BinBuilder
  final :: world

definition build :: "env \<Rightarrow> host \<Rightarrow> BinBuilder \<Rightarrow> world \<Rightarrow> build_outcome" where
  "build ev h b w =
     (case ensureExist b w of
        (Inl err, w1) \<Rightarrow> \<lparr>promise = Inl err, detached = None, builder = b, final = w1\<rparr>
      | (Inr done, w1) \<Rightarrow>
          (case tempDirectoryTask ev
                  (\<lambda>buildDir w2. case build_task ev h buildDir b w2 of
                                    (res, pending, b3, w3) \<Rightarrow> (Inr (res, buildDir, pending, b3), w3)) w1 of
             (Inl err, w4) \<Rightarrow>
               \<lparr>promise = Inr (), detached = Some (Inl err), builder = b, final = w4\<rparr>
           | (Inr (res, buildDir, pending, b3), w4) \<Rightarrow>
               (case finish_pending ev pending buildDir b3 w4 of
                  (b5, w5) \<Rightarrow>
                    \<lparr>promise = Inr (), detached = Some res, builder = b5, final = w5\<rparr>)))"

section \<open>A fragment of the URL parser\<close>

text \<open>
  What \<^verbatim>\<open>new URL(input)\<close> does without a base, as far as the sources read the result: the
  scheme and the path. The input is trimmed; it needs a scheme, a letter followed by
  letters, digits, \<^verbatim>\<open>+\<close>, \<^verbatim>\<open>-\<close> or \<^verbatim>\<open>.\<close> up to a colon, or the constructor throws. For the
  special schemes a backslash is a slash, \<^verbatim>\<open>file\<close> may have an empty host and the others need
  one. The path ends at \<^verbatim>\<open>?\<close> or \<^verbatim>\<open>#\<close>; its dot segments are resolved and the characters
  of the path percent-encode set are written as \<^verbatim>\<open>%XX\<close>. Left out: credentials, ports and
  the syntax of hosts beyond a few forbidden characters, Windows drive letters, and
  percent-encoded dot segments.
\<close>

definition is_alpha :: "char \<Rightarrow> bool" where
  "is_alpha c = (let n = (of_char c :: nat) in (65 \<le> n \<and> n \<le> 90) \<or> (97 \<le> n \<and> n \<le> 122))"

definition is_digit :: "char \<Rightarrow> bool" where
  "is_digit c = (let n = (of_char c :: nat) in 48 \<le> n \<and> n \<le> 57)"

definition to_lower :: "char \<Rightarrow> char" where
  "to_lower c = (let n = (of_char c :: nat) in if 65 \<le> n \<and> n \<le> 90 then char_of (n + 32) else c)"

definition is_scheme_char :: "char \<Rightarrow> bool" where
  "is_scheme_char c = (is_alpha c \<or> is_digit c \<or> c \<in> set ''+-.'')"

definition trim_url :: "string \<Rightarrow> string" where
  "trim_url s =
     (let blank = (\<lambda>c. (of_char c :: nat) \<le> 32)
      in filter (\<lambda>c. (of_char c :: nat) \<notin> set [9, 10, 13])
           (dropWhile blank (rev (dropWhile blank (rev s)))))"

definition percent_encode :: "char \<Rightarrow> string" where
  "percent_encode c =
     (let n = (of_char c :: nat)
      in [CHR ''%'', ''0123456789ABCDEF'' ! (n div 16), ''0123456789ABCDEF'' ! (n mod 16)])"

definition encode_path_char :: "char \<Rightarrow> string" where
  "encode_path_char c =
     (let n = (of_char c :: nat)
      in if n \<le> 32 \<or> 126 < n \<or> n \<in> set [34, 35, 60, 62, 63, 94, 96, 123, 125]
         then percent_encode c else [c])"

definition encode_opaque_char :: "char \<Rightarrow> string" where
  "encode_opaque_char c =
     (let n = (of_char c :: nat) in if n < 32 \<or> 126 < n then percent_encode c else [c])"

text \<open>The path state: the segments still to read, and the path so far.\<close>

fun url_segments :: "string list \<Rightarrow> string list \<Rightarrow> string list" where
  "url_segments [] path = path"
| "url_segments (s # rest) path =
     (if s = ''..'' then url_segments rest (butlast path @ (if rest = [] then [[]] else []))
      else if s = ''.'' then url_segments rest (path @ (if rest = [] then [[]] else []))
      else url_segments rest (path @ [concat (map encode_path_char s)]))"

definition url_path :: "string \<Rightarrow> string" where
  "url_path p = path_sep # join_with path_sep (url_segments (split_on path_sep (drop 1 p)) [])"

definition backslash_to_slash :: "char \<Rightarrow> char" where
  "backslash_to_slash c = (if (of_char c :: nat) = 92 then path_sep else c)"

definition new_URL :: "string \<Rightarrow> URL option" where
  "new_URL input =
     (let s = trim_url input;
          sch = takeWhile is_scheme_char s;
          rest = dropWhile is_scheme_char s
      in if sch = [] \<or> \<not> is_alpha (hd sch) \<or> rest = [] \<or> hd rest \<noteq> CHR '':'' then None
         else
           let scheme = map to_lower sch;
               after = takeWhile (\<lambda>c. (of_char c :: nat) \<noteq> 63 \<and> (of_char c :: nat) \<noteq> 35) (tl rest)
           in if scheme = ''file'' then
                (let r = map backslash_to_slash after
                 in Some \<lparr>protocol = ''file:'',
                          pathname =
                            (if take 2 r = ''//''
                             then url_path (dropWhile (\<lambda>c. c \<noteq> path_sep) (drop 2 r))
                             else url_path (if r \<noteq> [] \<and> hd r = path_sep then r else path_sep # r))\<rparr>)
              else if scheme \<in> set [''http'', ''https'', ''ws'', ''wss'', ''ftp''] then
                (let r = dropWhile (\<lambda>c. c = path_sep) (map backslash_to_slash after);
                     host = takeWhile (\<lambda>c. c \<noteq> path_sep) r
                 in if host = [] \<or> list_ex (\<lambda>c. (of_char c :: nat) \<in> set [32, 60, 62, 94, 124]) host
                    then None
                    else Some \<lparr>protocol = scheme @ '':'',
                               pathname = url_path (dropWhile (\<lambda>c. c \<noteq> path_sep) r)\<rparr>)
              else
                Some \<lparr>protocol = scheme @ '':'',
                      pathname =
                        (if take 2 after = ''//''
                         then (let p = dropWhile (\<lambda>c. c \<noteq> path_sep) (drop 2 after)
                               in if p = [] then [] else url_path p)
                         else if after \<noteq> [] \<and> hd after = path_sep then url_path after
                         else concat (map encode_opaque_char after))\<rparr>)"

section \<open>Sample inputs for evaluation\<close>

definition empty_world :: world where
  "empty_world = \<lparr>root = Dir [], cwd = [], trace = []\<rparr>"

text \<open>
  Two archives: one with a file beside its top directory, and one whose only top entry is
  a directory with one file.
\<close>

definition sample_tree :: "(string \<times> fsnode) list" where
  "sample_tree =
     [(''x'', File ''1''),
      (''top'', Dir [(''f'', File ''2''), (''sub'', Dir [(''g'', File [])])])]"

definition wrapped_tree :: "(string \<times> fsnode) list" where
  "wrapped_tree = [(''pkg'', Dir [(''bin'', File ''elf'')])]"

text \<open>
  Collaborators for evaluation. The server has the two archives and answers 404 for
  anything else; the sniffer reads the magic bytes; the zip decoder unpacks the archive it
  is given, \<open>wrapped_tree\<close> for the bytes \<^verbatim>\<open>PKW\<close> and \<open>sample_tree\<close> otherwise, and the tar
  decoder one file, into the directory it is given; the process \<^verbatim>\<open>false\<close> exits with 1,
  every other with 0.
\<close>

definition sample_http_get :: "string \<Rightarrow> world \<Rightarrow> error + Response" where
  "sample_http_get u w =
     (if u = ''http://h/a.zip''
      then Inr \<lparr>ok = True, status = 200, statusText = ''OK'', resp_body = Some (Complete ''PK'')\<rparr>
      else if u = ''http://h/pkg.zip''
      then Inr \<lparr>ok = True, status = 200, statusText = ''OK'', resp_body = Some (Complete ''PKW'')\<rparr>
      else Inr \<lparr>ok = False, status = 404, statusText = ''Not Found'',
                resp_body = Some (Complete ''gone'')\<rparr>)"

definition sample_getType :: "string \<Rightarrow> world \<Rightarrow> error + string" where
  "sample_getType p w =
     (case lookup w p of
        Inr (File content) \<Rightarrow>
          Inr (if take 2 content = ''PK'' then ''application/zip''
               else if take 2 content = ''GZ'' then ''application/gzip''
               else ''text/plain'')
      | _ \<Rightarrow> Inl (ExternalError ''cannot read''))"

definition sample_unpack :: "fsnode \<Rightarrow> string \<Rightarrow> world \<Rightarrow> (error + unit) \<times> fsnode" where
  "sample_unpack tree dir w =
     (case put_at (resolve w dir) tree (root w) of
        Inl e \<Rightarrow> (Inl (ExternalError ''cannot unpack''), root w)
      | Inr r \<Rightarrow> (Inr (), r))"

definition sample_unzip :: "string \<Rightarrow> string \<Rightarrow> world \<Rightarrow> (error + unit) \<times> fsnode" where
  "sample_unzip f dir w =
     (case lookup w f of
        Inr (File content) \<Rightarrow>
          sample_unpack (Dir (if content = ''PKW'' then wrapped_tree else sample_tree)) dir w
      | _ \<Rightarrow> (Inl (ExternalError ''cannot read''), root w))"

definition sample_env :: env where
  "sample_env =
     \<lparr>parse_url = new_URL,
      http_get = sample_http_get,
      getType = sample_getType,
      tar_decoder = (\<lambda>f d s. sample_unpack (Dir [(''bin'', File ''elf'')]) d),
      zip_decoder = sample_unzip,
      run_process = (\<lambda>c d w. (Inr (if cmd c = ''false'' then 1 else 0), root w)),
      temp_file_name = (\<lambda>w. ''/tmp/f''),
      temp_dir_name = (\<lambda>w. ''/tmp/d'')\<rparr>"

definition tmp_world :: world where
  "tmp_world = \<lparr>root = Dir [(''tmp'', Dir [])], cwd = [], trace = []\<rparr>"

text \<open>A world with an archive whose name has a space, one with an archive to unpack.\<close>

definition spaced_world :: world where
  "spaced_world = \<lparr>root = Dir [(''a b.zip'', File ''PK'')], cwd = [], trace = []\<rparr>"

definition zip_world :: world where
  "zip_world = \<lparr>root = Dir [(''a.zip'', File ''PK'')], cwd = [], trace = []\<rparr>"

text \<open>A world whose working directory is not the root.\<close>

definition work_world :: world where
  "work_world = \<lparr>root = Dir [(''tmp'', Dir []), (''w'', Dir [])], cwd = [''w''], trace = []\<rparr>"

text \<open>The invocations of the download pipeline among the recorded events.\<close>

fun is_invoke :: "event \<Rightarrow> bool" where
  "is_invoke (Invoke u d s) = True"
| "is_invoke e = False"

definition invokes :: "world \<Rightarrow> event list" where
  "invokes w = filter is_invoke (trace w)"

definition linux :: host where
  "linux = \<lparr>platform = ''linux'', host_arch = ''x64''\<rparr>"

text \<open>A builder with a source for the host, one for another platform, and one command.\<close>

definition sample_builder :: BinBuilder where
  "sample_builder =
     commands_set [\<lparr>cmd = ''true'', args = None\<rparr>]
       ((src linux ''http://h/a.zip'' None None
          (src linux ''http://h/mac.zip'' (Some ''darwin'') None new_BinBuilder))
        \<lparr>destination := ''out''\<rparr>)"

text \<open>A builder with one source, an archive whose only top entry is a directory.\<close>

definition pkg_builder :: BinBuilder where
  "pkg_builder = (src linux ''http://h/pkg.zip'' None None new_BinBuilder)\<lparr>destination := ''out''\<rparr>"

text \<open>Two paths diverge when neither is a prefix of the other.\<close>

fun diverge :: "'a list \<Rightarrow> 'a list \<Rightarrow> bool" where
  "diverge (a # as) (b # bs) = (a \<noteq> b \<or> diverge as bs)"
| "diverge as bs = False"

text \<open>The commands among the recorded events, and a builder whose second command fails.\<close>

fun is_exec :: "event \<Rightarrow> bool" where
  "is_exec (Exec c dir) = True"
| "is_exec e = False"

definition failing_builder :: BinBuilder where
  "failing_builder =
     commands_set
       [\<lparr>cmd = ''true'', args = None\<rparr>,
        \<lparr>cmd = ''false'', args = None\<rparr>,
        \<lparr>cmd = ''make'', args = Some [''install'']\<rparr>]
       sample_builder"

section \<open>Path lemmas\<close>

lemma split_on_not_Nil: "split_on c s \<noteq> []"
  by (induction s) (auto split: list.splits)

lemma split_on_free: "c \<notin> set s \<Longrightarrow> split_on c s = [s]"
  by (induction s) auto

lemma split_on_append: "c \<notin> set d \<Longrightarrow> split_on c (d @ c # rest) = d # split_on c rest"
  by (induction d) auto

lemma split_on_join:
  "ds \<noteq> [] \<Longrightarrow> \<forall>d \<in> set ds. c \<notin> set d \<Longrightarrow> split_on c (join_with c ds) = ds"
proof (induction c ds rule: join_with.induct)
  case (1 c)
  then show ?case by simp
next
  case (2 c x)
  then show ?case by (simp add: split_on_free)
next
  case (3 c x y ys)
  then show ?case by (simp add: split_on_append)
qed

lemma join_with_snoc:
  "ds \<noteq> [] \<Longrightarrow> join_with c (ds @ [x]) = join_with c ds @ c # x"
  by (induction c ds rule: join_with.induct) auto

lemma join_with_Nil_iff: "join_with c ds = [] \<longleftrightarrow> (ds = [] \<or> ds = [[]])"
  by (induction c ds rule: join_with.induct) auto

lemma hd_join_with: "ds \<noteq> [] \<Longrightarrow> hd ds \<noteq> [] \<Longrightarrow> hd (join_with c ds) = hd (hd ds)"
  by (induction c ds rule: join_with.induct) auto

lemma last_join_with: "ds \<noteq> [] \<Longrightarrow> last ds \<noteq> [] \<Longrightarrow> last (join_with c ds) = last (last ds)"
  by (induction c ds rule: join_with.induct) (auto simp: join_with_Nil_iff)

lemma push_segment_plain: "plain_segment d \<Longrightarrow> push_segment a acc d = acc @ [d]"
  unfolding push_segment_def plain_segment_def by (cases d) auto

lemma foldl_push_plain:
  "\<forall>d \<in> set ds. plain_segment d \<Longrightarrow> foldl (push_segment a) acc ds = acc @ ds"
  by (induction ds arbitrary: acc) (simp_all add: push_segment_plain)

lemma plain_sep_free: "plain_segment x \<Longrightarrow> \<forall>c \<in> set x. c \<noteq> path_sep"
  unfolding plain_segment_def by blast

lemma plain_not_Nil: "plain_segment x \<Longrightarrow> x \<noteq> []"
  unfolding plain_segment_def by blast

lemma plain_hd_last:
  assumes "plain_segment d"
  shows "hd d \<noteq> path_sep" "last d \<noteq> path_sep"
  using plain_sep_free[OF assms] plain_not_Nil[OF assms] by (metis hd_in_set, metis last_in_set)

lemma path_normalize_plain:
  assumes "ds \<noteq> []" "\<forall>d \<in> set ds. plain_segment d"
  shows "path_normalize (join_with path_sep ds) = join_with path_sep ds"
proof -
  have ne: "hd ds \<noteq> []" "last ds \<noteq> []"
    using assms by (auto simp: plain_segment_def)
  have j: "join_with path_sep ds \<noteq> []"
    using assms ne by (auto simp: join_with_Nil_iff)
  have h: "hd (join_with path_sep ds) \<noteq> path_sep"
    using assms ne plain_hd_last(1)[of "hd ds"] by (simp add: hd_join_with)
  have l: "last (join_with path_sep ds) \<noteq> path_sep"
    using assms ne plain_hd_last(2)[of "last ds"] by (simp add: last_join_with)
  have s: "split_on path_sep (join_with path_sep ds) = ds"
    using assms by (intro split_on_join) (auto simp: plain_segment_def)
  show ?thesis
    using j h l assms(2) by (simp add: path_normalize_def s normalize_segments_def foldl_push_plain)
qed

lemma path_join_plain:
  assumes "ds \<noteq> []" "\<forall>d \<in> set ds. plain_segment d"
  shows "path_join ds = join_with path_sep ds"
proof -
  have "filter (\<lambda>a. a \<noteq> []) ds = ds"
    using assms(2) by (auto simp: plain_segment_def intro: filter_True)
  then show ?thesis
    using assms by (simp add: path_join_def path_normalize_plain)
qed

lemma path_join_dot:
  assumes "plain_segment x"
  shows "path_join [''.'', x] = x"
proof -
  have f: "filter (\<lambda>a. a \<noteq> []) [''.'', x] = [''.'', x]"
    using assms by (simp add: plain_segment_def)
  have s: "split_on path_sep (''.'' @ path_sep # x) = [''.'', x]"
    using assms by (simp add: split_on_free plain_segment_def path_sep_def)
  have l: "last x \<noteq> path_sep" "x \<noteq> []"
    using assms plain_hd_last(2) by (auto simp: plain_segment_def)
  show ?thesis
    using s l assms
    by (simp add: path_join_def path_normalize_def normalize_segments_def push_segment_def
        plain_segment_def path_sep_def)
qed

lemma plain_rev_cases:
  assumes "plain_segment x"
  obtains ys y where "x = ys @ [y]" "y \<noteq> path_sep"
proof (cases x rule: rev_cases)
  case Nil
  with assms show ?thesis by (simp add: plain_segment_def)
next
  case (snoc ys y)
  with assms plain_sep_free[of x] that show ?thesis by simp
qed

lemma dropWhile_sep_rev_plain:
  assumes "plain_segment x"
  shows "dropWhile (\<lambda>c. c = path_sep) (rev x @ zs) = rev x @ zs"
proof -
  obtain ys y where "x = ys @ [y]" "y \<noteq> path_sep"
    using assms by (rule plain_rev_cases)
  then show ?thesis by simp
qed

lemma path_basename_snoc:
  assumes "plain_segment x"
  shows "path_basename (d @ path_sep # x) = x"
proof -
  have t: "takeWhile (\<lambda>c. c \<noteq> path_sep) (rev x @ path_sep # rev d) = rev x"
    using plain_sep_free[OF assms] by (simp add: takeWhile_tail)
  show ?thesis
    using dropWhile_sep_rev_plain[OF assms, of "path_sep # rev d"] t
    by (simp add: path_basename_def)
qed

lemma path_basename_plain:
  assumes "plain_segment x"
  shows "path_basename x = x"
proof -
  have t: "takeWhile (\<lambda>c. c \<noteq> path_sep) (rev x) = rev x"
    using plain_sep_free[OF assms] by simp
  have d: "dropWhile (\<lambda>c. c = path_sep) (rev x) = rev x"
    using dropWhile_sep_rev_plain[OF assms, of "[]"] by simp
  show ?thesis
    unfolding path_basename_def d t by simp
qed

lemma path_dirname_plain:
  assumes "plain_segment x"
  shows "path_dirname x = ''.''"
proof -
  obtain c cs where x: "x = c # cs" and c: "c \<noteq> path_sep" and cs: "\<forall>k \<in> set cs. k \<noteq> path_sep"
    using assms plain_sep_free[OF assms] by (cases x) (auto simp: plain_segment_def)
  have "dropWhile (\<lambda>c. c = path_sep) (rev cs) = rev cs"
    using cs by (cases cs rule: rev_cases) auto
  moreover have "dropWhile (\<lambda>c. c \<noteq> path_sep) (rev cs) = []"
    using cs by simp
  ultimately show ?thesis
    using c by (simp add: path_dirname_def x)
qed

lemma path_dirname_snoc:
  assumes "plain_segment x" "d \<noteq> []" "hd d \<noteq> path_sep"
  shows "path_dirname (d @ path_sep # x) = d"
proof -
  obtain c cs where d: "d = c # cs" and c: "c \<noteq> path_sep"
    using assms by (cases d) auto
  have r1: "dropWhile (\<lambda>c. c = path_sep) (rev x @ path_sep # rev cs) = rev x @ path_sep # rev cs"
    by (rule dropWhile_sep_rev_plain[OF assms(1)])
  have r2: "dropWhile (\<lambda>c. c \<noteq> path_sep) (rev x @ path_sep # rev cs) = path_sep # rev cs"
    using plain_sep_free[OF assms(1)] by (simp add: dropWhile_append3)
  show ?thesis
    using c by (simp add: path_dirname_def d r1 r2)
qed

lemma pop_loop_take:
  "pop_loop i level dirs = take (length dirs - nat (level - i)) dirs"
proof (induction i level dirs rule: pop_loop.induct)
  case (1 i level dirs)
  show ?case
  proof (cases "i < level")
    case True
    have n: "nat (level - i) = Suc (nat (level - (i + 1)))"
      using True by simp
    have "pop_loop i level dirs = take (length (butlast dirs) - nat (level - (i + 1))) (butlast dirs)"
      using True 1 by (subst pop_loop.simps) simp
    also have "\<dots> = take (length dirs - nat (level - i)) dirs"
      unfolding n by (simp add: butlast_conv_take min_def)
    finally show ?thesis .
  next
    case False
    then show ?thesis by (subst pop_loop.simps) simp
  qed
qed

section \<open>Stripping directories\<close>

text \<open>
  C4, as the code has it. For a relative path built from plain segments, directories
  \<open>ds\<close> and a leaf, \<open>stripDirs\<close> returns the path unchanged when the level exceeds the
  number of directories (or is not positive), and otherwise drops exactly \<open>level\<close>
  directories from the right end of the directory prefix and keeps the leaf; with no
  directory the leaf comes back for every level. The function is total.
\<close>

theorem stripDirs_plain:
  assumes ds: "\<forall>d \<in> set ds. plain_segment d" and leaf: "plain_segment leaf"
  shows "stripDirs (join_with path_sep (ds @ [leaf])) level =
         join_with path_sep
           ((if int (length ds) < level then ds else take (length ds - nat level) ds) @ [leaf])"
proof (cases "ds = []")
  case True
  have dirs: "split_on path_sep (path_dirname leaf) = [''.'']"
    by (simp add: path_dirname_plain[OF leaf] path_sep_def)
  have j1: "path_join [''.'', leaf] = leaf"
    by (rule path_join_dot[OF leaf])
  have j2: "path_join [leaf] = leaf"
    using path_join_plain[of "[leaf]"] leaf by simp
  have p: "pop_loop 0 level [''.''] = (if level \<le> 0 then [''.''] else [])"
    by (simp add: pop_loop_take)
  show ?thesis
    using True j1 j2
    by (simp add: stripDirs_def dirs path_basename_plain[OF leaf] p Let_def)
next
  case False
  let ?D = "join_with path_sep ds"
  have ne: "?D \<noteq> []"
    using False ds plain_not_Nil by (cases ds) (auto simp: join_with_Nil_iff)
  have hd: "hd ?D \<noteq> path_sep"
    using False ds plain_hd_last(1)[of "hd ds"] plain_not_Nil[of "hd ds"]
    by (simp add: hd_join_with)
  have p: "join_with path_sep (ds @ [leaf]) = ?D @ path_sep # leaf"
    using False by (simp add: join_with_snoc)
  have "\<forall>d \<in> set ds. path_sep \<notin> set d"
    using ds plain_sep_free by blast
  then have "split_on path_sep ?D = ds"
    using False by (intro split_on_join)
  then have dirs: "split_on path_sep (path_dirname (?D @ path_sep # leaf)) = ds"
    by (simp add: path_dirname_snoc[OF leaf ne hd])
  have base: "path_basename (?D @ path_sep # leaf) = leaf"
    by (rule path_basename_snoc[OF leaf])
  have j: "path_join (xs @ [leaf]) = join_with path_sep (xs @ [leaf])" if "set xs \<subseteq> set ds" for xs
    using that ds leaf by (intro path_join_plain) auto
  have t: "pop_loop 0 level ds = take (length ds - nat level) ds"
    by (simp add: pop_loop_take)
  show ?thesis
    unfolding p stripDirs_def dirs base Let_def t
    using j[of ds] j[of "take (length ds - nat level) ds"] set_take_subset[of _ ds]
    by simp
qed

theorem stripDirs_plain_witness:
  "stripDirs ''a/b/c.txt'' 1 = ''a/c.txt''"
  using stripDirs_plain [of "[''a'', ''b'']" "''c.txt''" 1]
  by (simp add: plain_segment_def path_sep_def)

text \<open>
  C4 as written fails: level 0 is not the identity on every path. \<open>path_join\<close>
  normalises what it joins, so \<^verbatim>\<open>./a\<close> comes back as \<^verbatim>\<open>a\<close>; and the directory part of an
  absolute path splits into an empty first piece, which \<open>path_join\<close> skips, so the root
  is lost.
\<close>

theorem stripDirs_level0_not_identity:
  "stripDirs ''./a'' 0 = ''a'' \<and> stripDirs ''/a/b'' 0 = ''a/b''"
  by (simp add: stripDirs_def path_dirname_def path_basename_def path_join_def path_normalize_def
      normalize_segments_def push_segment_def path_sep_def pop_loop.simps)

section \<open>Matching sources\<close>

lemma sources_register_all:
  "sources (register_all regs b) = sources b @ map registered_source regs"
proof (induction regs arbitrary: b)
  case Nil
  show ?case by (simp add: register_all_def)
next
  case (Cons r regs)
  obtain h u o_arg a_arg where r: "r = (h, u, o_arg, a_arg)"
    by (cases r) auto
  have "register_all (r # regs) b = register_all regs (src h u o_arg a_arg b)"
    by (simp add: register_all_def r)
  then show ?case
    using Cons.IH[of "src h u o_arg a_arg b"] by (simp add: src_def registered_source_def r)
qed

text \<open>
  C9. After any sequence of registrations on a new builder, \<open>getSrcs\<close> on host \<open>h\<close>
  returns the registered sources whose platform and architecture equal those of \<open>h\<close>,
  in registration order; the source of a registration is \<open>registered_source\<close>, which
  takes a missing platform or architecture from the host of the registering call, not
  from \<open>h\<close>. So a source registered on host \<open>h0\<close> without platform and architecture
  matches on \<open>h\<close> exactly when \<open>h\<close> has the platform and architecture of \<open>h0\<close>.
\<close>

theorem getSrcs_register_all:
  "getSrcs h (register_all regs new_BinBuilder) =
     filter (\<lambda>s. os s = platform h \<and> arch s = host_arch h) (map registered_source regs) \<and>
   getSrcs h (src h0 u None None new_BinBuilder) =
     (if platform h0 = platform h \<and> host_arch h0 = host_arch h
      then [\<lparr>os = platform h0, arch = host_arch h0, url = u\<rparr>] else [])"
  by (simp add: getSrcs_def sources_register_all new_BinBuilder_def src_def)

section \<open>Zip extraction with a strip level\<close>

lemma filter_collected_deeper:
  "m \<le> d \<Longrightarrow> filter (collected m) (all_entries node p d) = []"
  "m \<le> d \<Longrightarrow> filter (collected m) (all_entries_list es p d) = []"
  by (induction node p d and es p d rule: all_entries_all_entries_list.induct) auto

lemma walk_collects:
  "0 \<le> c \<Longrightarrow> c < m \<Longrightarrow>
     walkDir node p m c =
       (case node of
          File content \<Rightarrow> Inl (SysError ENOTDIR p)
        | Dir entries \<Rightarrow> Inr (map fst (filter (collected (nat m)) (all_entries node p (nat c)))))"
  "0 \<le> c \<Longrightarrow> c < m \<Longrightarrow>
     walkLoop es p m c res =
       Inr (res @ map fst (filter (collected (nat m)) (all_entries_list es p (nat c))))"
proof (induction node p m c and es p m c res rule: walkDir_walkLoop.induct)
  case (1 content filepath maxDepth currDepth)
  then show ?case by simp
next
  case (2 entries filepath maxDepth currDepth)
  then show ?case by simp
next
  case (3 filepath maxDepth currDepth res)
  then show ?case by simp
next
  case (4 name content rest filepath maxDepth currDepth res)
  then have "Suc (nat currDepth) \<le> nat maxDepth" by simp
  with 4 show ?case by simp
next
  case (5 name sub rest filepath maxDepth currDepth res)
  have suc: "nat (currDepth + 1) = Suc (nat currDepth)"
    using 5(4) by simp
  show ?case
  proof (cases "currDepth + 1 < maxDepth")
    case True
    have ne: "Suc (nat currDepth) \<noteq> nat maxDepth"
      using True 5(4) by simp
    let ?found = "map fst (filter (collected (nat maxDepth))
                   (all_entries (Dir sub) (path_join [filepath, name]) (Suc (nat currDepth))))"
    have a: "walkDir (Dir sub) (path_join [filepath, name]) maxDepth (currDepth + 1) = Inr ?found"
      using 5(1)[OF True] True 5(4) suc by simp
    have b: "walkLoop rest filepath maxDepth currDepth (res @ ?found) =
            Inr ((res @ ?found) @ map fst (filter (collected (nat maxDepth))
                   (all_entries_list rest filepath (nat currDepth))))"
      by (rule 5(2)[OF True a 5(4) 5(5)])
    show ?thesis
      using True a b ne by simp
  next
    case False
    have eq: "Suc (nat currDepth) = nat maxDepth"
      using False 5(4) 5(5) by simp
    have deep: "filter (collected (nat maxDepth))
                 (all_entries_list sub (path_join [filepath, name]) (Suc (nat currDepth))) = []"
      by (rule filter_collected_deeper(2)) (simp add: eq)
    show ?thesis
      using False 5(3)[OF False 5(4) 5(5)] eq deep by simp
  qed
qed

lemma fs_rename_trace:
  "fs_rename old new w = (r, w') \<Longrightarrow> trace w' = trace w @ [Rename old new]"
  by (auto simp: fs_rename_def log_event_def Let_def split: sum.splits if_splits option.splits)

lemma strip_leaves_trace:
  "strip_leaves s leaves w = (r, w') \<Longrightarrow>
     \<exists>n. n \<le> length leaves \<and>
         trace w' = trace w @ map (\<lambda>leaf. Rename leaf (stripDirs leaf s)) (take n leaves) \<and>
         (r = Inr () \<longrightarrow> n = length leaves)"
proof (induction leaves arbitrary: w)
  case Nil
  then show ?case by simp
next
  case (Cons leaf leaves)
  obtain r1 w1 where step: "fs_rename leaf (stripDirs leaf s) w = (r1, w1)"
    by (cases "fs_rename leaf (stripDirs leaf s) w") auto
  have t1: "trace w1 = trace w @ [Rename leaf (stripDirs leaf s)]"
    by (rule fs_rename_trace[OF step])
  show ?case
  proof (cases r1)
    case (Inl err)
    then have "r = Inl (StripError s leaf err)" "w' = w1"
      using Cons.prems step by simp_all
    then show ?thesis
      using t1 by (intro exI[of _ 1]) simp
  next
    case (Inr u)
    then have "strip_leaves s leaves w1 = (r, w')"
      using Cons.prems step by simp
    then obtain n where n: "n \<le> length leaves"
      "trace w' = trace w1 @ map (\<lambda>leaf. Rename leaf (stripDirs leaf s)) (take n leaves)"
      "r = Inr () \<longrightarrow> n = length leaves"
      using Cons.IH by blast
    show ?thesis
      using n t1 by (intro exI[of _ "Suc n"]) simp
  qed
qed

text \<open>
  What the walk of \<open>extractZip\<close> returns for a strip level \<open>strip \<ge> 0\<close>: in directory
  order, every entry that is not a directory at depth 1 to \<open>strip + 1\<close> and every
  directory at depth exactly \<open>strip + 1\<close>.
\<close>

lemma walkDir_from_collects:
  assumes "0 \<le> strip"
    and "lookup w dest = Inr (Dir entries)"
  shows "walkDir_from w dest (strip + 1) =
           Inr (map fst (filter (collected (nat (strip + 1))) (all_entries (Dir entries) dest 0)))"
  using assms walk_collects(1)[of 0 "strip + 1" "Dir entries" dest]
  by (simp add: walkDir_from_def)

text \<open>
  C3 fails on the code. The archive has a file \<^verbatim>\<open>x\<close> beside its top directory, and is
  extracted into \<^verbatim>\<open>dest\<close> with strip level 1. The walk collects \<^verbatim>\<open>dest/x\<close>, at depth 1,
  with the two entries at depth 2, and the rename moves it to \<^verbatim>\<open>x\<close>, out of the
  destination directory.
\<close>

theorem extractZip_renames_shallow_file:
  "extractZip sample_env ''a.zip'' ''dest'' (Some 1) zip_world =
     (Inr (),
      \<lparr>root = Dir [(''a.zip'', File ''PK''),
                   (''dest'', Dir [(''top'', Dir []), (''f'', File ''2''),
                                   (''sub'', Dir [(''g'', File [])])]),
                   (''x'', File ''1'')],
       cwd = [],
       trace = [ZipExtract ''a.zip'' ''/dest'', Rename ''dest/x'' ''x'',
                Rename ''dest/top/f'' ''dest/f'', Rename ''dest/top/sub'' ''dest/sub'']\<rparr>)"
  by code_simp

section \<open>Fetching a source\<close>

lemma node_at_put_at:
  "put_at p x r = Inr r' \<Longrightarrow> node_at p r' = Inr x"
proof (induction p arbitrary: r r')
  case Nil
  then show ?case by simp
next
  case (Cons c cs)
  then show ?case
    by (auto simp: update_conv' split: fsnode.splits option.splits sum.splits if_splits)
qed

lemma fs_copyFile_trace:
  "fs_copyFile from to w = (res, w') \<Longrightarrow> trace w' = trace w @ [CopyFile from to]"
  by (auto simp: fs_copyFile_def log_event_def Let_def split: sum.splits fsnode.splits)

lemma createWriteStream_trace: "createWriteStream dest w = (opened, w') \<Longrightarrow> trace w' = trace w"
  by (auto simp: createWriteStream_def split: sum.splits fsnode.splits)

lemma pipeline_to_trace: "pipeline_to u dest b opened w = (res, w') \<Longrightarrow> trace w' = trace w"
  by (auto simp: pipeline_to_def unlink_quietly_def write_stream_def
      split: sum.splits fsnode.splits option.splits body.splits)

lemma downloadFromURL_trace:
  assumes "downloadFromURL ev u dest w = (res, w')"
  shows "trace w' = trace w @ [Fetch u]"
proof (cases "http_get ev u w")
  case (Inl err)
  with assms show ?thesis by (auto simp: downloadFromURL_def log_event_def)
next
  case (Inr resp)
  obtain opened w2 where o: "createWriteStream dest (log_event (Fetch u) w) = (opened, w2)"
    by (cases "createWriteStream dest (log_event (Fetch u) w)") auto
  have t2: "trace w2 = trace w @ [Fetch u]"
    using createWriteStream_trace[OF o] by (simp add: log_event_def)
  show ?thesis
    using assms Inr o t2 pipeline_to_trace
    by (auto simp: downloadFromURL_def Let_def split: if_splits option.splits)
qed

text \<open>
  A local source costs one \<^verbatim>\<open>copyFile\<close> call and no fetch, from what \<open>trimLocalURL\<close> makes
  of it; any other source costs one fetch and no copy.
\<close>

lemma download_trace:
  assumes "download ev u dest w = (r, w')"
  shows "trace w' = trace w @ [if isLocalPath ev u then CopyFile (trimLocalURL ev u) dest else Fetch u]"
proof (cases "isLocalPath ev u")
  case True
  then have "fs_copyFile (trimLocalURL ev u) dest w = (r, w')"
    using assms by (simp add: download_def copyLocalFile_def)
  from fs_copyFile_trace[OF this] True show ?thesis by simp
next
  case False
  then have "downloadFromURL ev u dest w = (r, w')"
    using assms by (simp add: download_def)
  from downloadFromURL_trace[OF this] False show ?thesis by simp
qed

text \<open>
  C8 fails on the code. The source \<^verbatim>\<open>file:///a b.zip\<close> is local and the file
  \<^verbatim>\<open>/a b.zip\<close> is there, but \<open>trimLocalURL\<close> does not strip the scheme from the source: it
  returns the pathname of the parsed URL, in which the space is percent-encoded. The copy
  is asked for \<^verbatim>\<open>/a%20b.zip\<close>, fails with \<^verbatim>\<open>ENOENT\<close>, and nothing reaches the destination.
\<close>

theorem download_file_url_with_space:
  "lookup spaced_world ''/a b.zip'' = Inr (File ''PK'') \<and>
   isLocalPath sample_env ''file:///a b.zip'' \<and>
   trimLocalURL sample_env ''file:///a b.zip'' = ''/a%20b.zip'' \<and>
   download sample_env ''file:///a b.zip'' ''out'' spaced_world =
     (Inl (SysError ENOENT ''/a%20b.zip''),
      \<lparr>root = Dir [(''a b.zip'', File ''PK'')], cwd = [],
       trace = [CopyFile ''/a%20b.zip'' ''out'']\<rparr>)"
  by code_simp

text \<open>
  C7. Once the source is in the temporary file and its type is sniffed, gzip and bzip2 go
  to the tar extractor and zip to the zip extractor, with the destination and the strip
  level that \<open>downloadAndExtract\<close> received; any other type fails with
  \<open>UnsupportedFormat\<close>, which carries the url and the type. The temporary file is removed
  in each case.
\<close>

theorem downloadAndExtract_format:
  assumes "w0 = log_event (Invoke u dest strip) w"
    and "temp = temp_file_name ev w0"
    and "download ev u temp w0 = (Inr (), w1)"
    and "getType ev temp w1 = Inr mime"
    and "r = (if mime = ''application/gzip'' \<or> mime = ''application/x-bzip2''
              then extract_archive ev temp dest Tar strip w1
              else if mime = ''application/zip''
              then extract_archive ev temp dest Zip strip w1
              else (Inl (UnsupportedFormat u mime), w1))"
  shows "downloadAndExtract ev u dest strip w = (fst r, remove_quietly temp (snd r))"
  using assms
  by (simp add: downloadAndExtract_def tempFileTask_def downloadAndExtract_task_def Let_def
      split: prod.splits)

theorem downloadAndExtract_format_witness:
  "fst (downloadAndExtract sample_env ''http://h/a.zip'' ''dest'' (Some 1) tmp_world) =
   fst (extract_archive sample_env ''/tmp/f'' ''dest'' Zip (Some 1)
         \<lparr>root = Dir [(''tmp'', Dir [(''f'', File ''PK'')])], cwd = [],
          trace = [Invoke ''http://h/a.zip'' ''dest'' (Some 1), Fetch ''http://h/a.zip'']\<rparr>)"
proof -
  let ?w0 = "log_event (Invoke ''http://h/a.zip'' ''dest'' (Some 1)) tmp_world"
  let ?w1 = "\<lparr>root = Dir [(''tmp'', Dir [(''f'', File ''PK'')])], cwd = [],
              trace = [Invoke ''http://h/a.zip'' ''dest'' (Some 1), Fetch ''http://h/a.zip'']\<rparr>"
  have h2: "''/tmp/f'' = temp_file_name sample_env ?w0"
    by (simp add: sample_env_def)
  have h3: "download sample_env ''http://h/a.zip'' ''/tmp/f'' ?w0 = (Inr (), ?w1)"
    by code_simp
  have h4: "getType sample_env ''/tmp/f'' ?w1 = Inr ''application/zip''"
    by code_simp
  from downloadAndExtract_format[OF refl h2 h3 h4 refl]
  show ?thesis by simp
qed

text \<open>
  C2 fails on the code. The write stream is opened before the status is tested, so an
  answer 404 raises \<open>HTTPError 404\<close> and leaves an empty file at the destination, where
  there was none; only the handler of a failed transfer unlinks the file.
\<close>

theorem downloadFromURL_http_error_leaves_file:
  "downloadFromURL sample_env ''http://h/missing'' ''out'' empty_world =
     (Inl (HTTPError 404 ''Not Found''),
      \<lparr>root = Dir [(''out'', File [])], cwd = [], trace = [Fetch ''http://h/missing'']\<rparr>) \<and>
   node_at (resolve empty_world ''out'') (root empty_world) = Inl ENOENT"
  by code_simp

section \<open>The strip level of the download phase\<close>

lemma invokes_root [simp]: "invokes (w\<lparr>root := r\<rparr>) = invokes w"
  by (simp add: invokes_def)

lemma invokes_log_event:
  "invokes (log_event e w) = invokes w @ (if is_invoke e then [e] else [])"
  by (simp add: invokes_def log_event_def)

lemma invokes_fs_rename: "fs_rename old new w = (r, w') \<Longrightarrow> invokes w' = invokes w"
  using fs_rename_trace[of old new w r w'] by (simp add: invokes_def)

lemma invokes_fs_mkdir_p: "fs_mkdir_p p w = (r, w') \<Longrightarrow> invokes w' = invokes w"
  by (auto simp: fs_mkdir_p_def split: sum.splits if_splits)

lemma invokes_remove_quietly [simp]: "invokes (remove_quietly p w) = invokes w"
  by (simp add: remove_quietly_def split: sum.splits)

lemma invokes_download: "download ev u dest w = (r, w') \<Longrightarrow> invokes w' = invokes w"
  using download_trace[of ev u dest w r w'] by (simp add: invokes_def)

lemma invokes_strip_leaves: "strip_leaves s leaves w = (r, w') \<Longrightarrow> invokes w' = invokes w"
  using strip_leaves_trace[of s leaves w r w'] by (auto simp: invokes_def filter_map comp_def)

lemma invokes_extract_archive:
  assumes "extract_archive ev filepath dest format strip w = (r, w')"
  shows "invokes w' = invokes w"
proof (cases format)
  case Tar
  with assms show ?thesis
    by (auto simp: extract_archive_def extractTar_def invokes_log_event split: prod.splits)
next
  case Zip
  obtain r1 w1 where u: "unzip ev filepath dest w = (r1, w1)"
    by (cases "unzip ev filepath dest w") auto
  have i1: "invokes w1 = invokes w"
    using u by (auto simp: unzip_def invokes_log_event split: prod.splits)
  show ?thesis
    using assms Zip u i1 invokes_strip_leaves
    by (auto simp: extract_archive_def extractZip_def split: sum.splits option.splits)
qed

lemma invokes_downloadAndExtract:
  assumes "downloadAndExtract ev u dest strip w = (r, w')"
  shows "invokes w' = invokes w @ [Invoke u dest strip]"
proof -
  let ?w0 = "log_event (Invoke u dest strip) w"
  let ?temp = "temp_file_name ev ?w0"
  obtain r1 w1 where t: "downloadAndExtract_task ev u dest strip ?temp ?w0 = (r1, w1)"
    by (cases "downloadAndExtract_task ev u dest strip ?temp ?w0") auto
  have "invokes w1 = invokes ?w0"
    using t invokes_download invokes_extract_archive
    by (auto simp: downloadAndExtract_task_def split: prod.splits sum.splits if_splits)
  moreover have "w' = remove_quietly ?temp w1"
    using assms t by (simp add: downloadAndExtract_def tempFileTask_def Let_def)
  ultimately show ?thesis
    by (simp add: invokes_log_event)
qed

lemma invokes_download_each:
  "download_each ev srcs dest b w = (r, pending, b', w') \<Longrightarrow>
     \<exists>started. srcs = started @ pending \<and>
       invokes w' = invokes w @ map (\<lambda>s. Invoke (url s) dest (Some 1)) started"
proof (induction srcs arbitrary: b w)
  case Nil
  then show ?case by simp
next
  case (Cons s rest)
  obtain r1 w1 where d: "downloadAndExtract ev (url s) dest (Some 1) w = (r1, w1)"
    by (cases "downloadAndExtract ev (url s) dest (Some 1) w") auto
  have i1: "invokes w1 = invokes w @ [Invoke (url s) dest (Some 1)]"
    by (rule invokes_downloadAndExtract[OF d])
  show ?case
  proof (cases r1)
    case (Inl err)
    then have "pending = rest" "w' = w1"
      using Cons.prems d by simp_all
    then show ?thesis
      using i1 by (intro exI[of _ "[s]"]) simp
  next
    case (Inr unit)
    then have "download_each ev rest dest (b\<lparr>downloaded := downloaded b @ [url s]\<rparr>) w1 =
                 (r, pending, b', w')"
      using Cons.prems d by simp
    from Cons.IH[OF this] obtain started where
      "rest = started @ pending"
      "invokes w' = invokes w1 @ map (\<lambda>s. Invoke (url s) dest (Some 1)) started"
      by blast
    then show ?thesis
      using i1 by (intro exI[of _ "s # started"]) simp
  qed
qed

lemma invokes_finish_pending:
  "finish_pending ev pending dest b w = (b', w') \<Longrightarrow>
     invokes w' = invokes w @ map (\<lambda>s. Invoke (url s) dest (Some 1)) pending"
proof (induction pending arbitrary: b w)
  case Nil
  then show ?case by simp
next
  case (Cons s rest)
  obtain r1 w1 where d: "downloadAndExtract ev (url s) dest (Some 1) w = (r1, w1)"
    by (cases "downloadAndExtract ev (url s) dest (Some 1) w") auto
  have i1: "invokes w1 = invokes w @ [Invoke (url s) dest (Some 1)]"
    by (rule invokes_downloadAndExtract[OF d])
  show ?case
  proof (cases r1)
    case (Inl err)
    then have "finish_pending ev rest dest b w1 = (b', w')"
      using Cons.prems d by simp
    from Cons.IH[OF this] i1 show ?thesis by simp
  next
    case (Inr unit)
    then have "finish_pending ev rest dest (b\<lparr>downloaded := downloaded b @ [url s]\<rparr>) w1 = (b', w')"
      using Cons.prems d by simp
    from Cons.IH[OF this] i1 show ?thesis by simp
  qed
qed

lemma invokes_run_commands: "run_commands ev cs dir w = (r, w') \<Longrightarrow> invokes w' = invokes w"
proof (induction cs arbitrary: w)
  case Nil
  then show ?case by simp
next
  case (Cons c rest)
  obtain r1 w1 where e: "execa ev c dir w = (r1, w1)"
    by (cases "execa ev c dir w") auto
  have "invokes w1 = invokes w"
    using e by (auto simp: execa_def invokes_log_event split: prod.splits)
  then show ?case
    using Cons e by (auto split: sum.splits if_splits)
qed

lemma invokes_remap_one:
  assumes "remap_one b dir remap w = (r, w')"
  shows "invokes w' = invokes w"
proof -
  let ?dst = "path_join [destination b,
                (case remap_dest remap of
                   None \<Rightarrow> remap_src remap
                 | Some d \<Rightarrow> if d = [] then remap_src remap else d)]"
  let ?m = "if exists_path (path_dirname ?dst) w = Inr False
            then fs_mkdir_p (path_dirname ?dst) w else (Inr (), w)"
  obtain r1 w1 where m: "?m = (r1, w1)"
    by (cases ?m) auto
  have i1: "invokes w1 = invokes w"
    using m invokes_fs_mkdir_p by (auto split: if_splits)
  show ?thesis
  proof (cases "exists_path (path_dirname ?dst) w")
    case (Inl err)
    with assms show ?thesis by (simp add: remap_one_def Let_def)
  next
    case (Inr found)
    have m': "(if \<not> found then fs_mkdir_p (path_dirname ?dst) w else (Inr (), w)) = (r1, w1)"
      using m Inr by (cases found) simp_all
    show ?thesis
    proof (cases r1)
      case (Inl err)
      with assms Inr m' i1 show ?thesis by (simp add: remap_one_def Let_def)
    next
      case (Inr unit)
      with assms \<open>exists_path (path_dirname ?dst) w = Inr found\<close> m'
      have "fs_rename (path_join [dir, remap_src remap]) ?dst w1 = (r, w')"
        by (simp add: remap_one_def Let_def)
      from invokes_fs_rename[OF this] i1 show ?thesis by simp
    qed
  qed
qed

lemma invokes_remap_each: "remap_each b dir rs w = (r, w') \<Longrightarrow> invokes w' = invokes w"
proof (induction rs arbitrary: w)
  case Nil
  then show ?case by simp
next
  case (Cons remap rest)
  obtain r1 w1 where e: "remap_one b dir remap w = (r1, w1)"
    by (cases "remap_one b dir remap w") auto
  show ?case
    using Cons e invokes_remap_one[OF e] by (auto split: sum.splits)
qed

lemma invokes_remap_files: "remap_files b dir w = (r, w') \<Longrightarrow> invokes w' = invokes w"
  using invokes_remap_each invokes_fs_rename
  by (auto simp: remap_files_def split: if_splits)

lemma invokes_BinBuilder_download:
  assumes "BinBuilder_download ev h dir b w = (r, pending, b', w')"
  shows "\<exists>started. getSrcs h b = started @ pending \<and>
           invokes w' = invokes w @ map (\<lambda>s. Invoke (url s) dir (Some 1)) started"
proof (cases "getSrcs h b = []")
  case True
  with assms show ?thesis by (simp add: BinBuilder_download_def)
next
  case False
  then have "download_each ev (getSrcs h b) dir b w = (r, pending, b', w')"
    using assms by (simp add: BinBuilder_download_def)
  from invokes_download_each[OF this] show ?thesis .
qed

lemma invokes_build_sources:
  assumes "build_sources ev h dir b w = (r, pending, b', w')"
  shows "\<exists>started. getSrcs h b = started @ pending \<and>
           invokes w' = invokes w @ map (\<lambda>s. Invoke (url s) dir (Some 1)) started"
proof -
  obtain r1 p1 b1 w1 where d: "BinBuilder_download ev h dir b w = (r1, p1, b1, w1)"
    by (cases "BinBuilder_download ev h dir b w") auto
  note i1 = invokes_BinBuilder_download[OF d]
  show ?thesis
  proof (cases r1)
    case (Inl err)
    with assms d have "w' = w1" "pending = p1" by (simp_all add: build_sources_def)
    with i1 show ?thesis by simp
  next
    case (Inr unit)
    obtain r2 w2 where c: "run_commands ev (cmds b1) dir w1 = (r2, w2)"
      by (cases "run_commands ev (cmds b1) dir w1") auto
    with assms d Inr have "w' = w2" "pending = p1" by (simp_all add: build_sources_def)
    with invokes_run_commands[OF c] i1 show ?thesis by simp
  qed
qed

lemma invokes_build_task:
  assumes "build_task ev h dir b w = (r, pending, b', w')"
  shows "\<exists>started. getSrcs h b = started @ pending \<and>
           invokes w' = invokes w @ map (\<lambda>s. Invoke (url s) dir (Some 1)) started"
proof -
  obtain r1 p1 b1 w1 where s: "build_sources ev h dir b w = (r1, p1, b1, w1)"
    by (cases "build_sources ev h dir b w") auto
  note i1 = invokes_build_sources[OF s]
  show ?thesis
  proof (cases r1)
    case (Inl err)
    with assms s have "w' = w1" "pending = p1" by (simp_all add: build_task_def)
    with i1 show ?thesis by simp
  next
    case (Inr unit)
    obtain r2 w2 where m: "remap_files b1 dir w1 = (r2, w2)"
      by (cases "remap_files b1 dir w1") auto
    with assms s Inr have "w' = w2" "pending = p1" by (simp_all add: build_task_def)
    with invokes_remap_files[OF m] i1 show ?thesis by simp
  qed
qed

lemma invokes_ensureExist: "ensureExist b w = (r, w') \<Longrightarrow> invokes w' = invokes w"
  using invokes_fs_mkdir_p
  by (auto simp: ensureExist_def createDir_def split: sum.splits if_splits)

text \<open>
  For every builder, a build that gets as far as its temporary directory invokes the
  download pipeline once for each source matching the host, in registration order, each
  time into the temporary directory and with strip level 1.
\<close>

lemma build_invokes_with_strip_1:
  assumes "ensureExist b w = (Inr (), w1)"
    and "fs_mkdir_p (temp_dir_name ev w1) w1 = (Inr (), w2)"
  shows "filter is_invoke (trace (final (build ev h b w))) =
         filter is_invoke (trace w) @
           map (\<lambda>s. Invoke (url s) (temp_dir_name ev w1) (Some 1)) (getSrcs h b)"
proof -
  let ?dir = "temp_dir_name ev w1"
  obtain r3 pending b3 w3 where t: "build_task ev h ?dir b w2 = (r3, pending, b3, w3)"
    by (cases "build_task ev h ?dir b w2") auto
  obtain b5 w5 where p: "finish_pending ev pending ?dir b3 (remove_quietly ?dir w3) = (b5, w5)"
    by (cases "finish_pending ev pending ?dir b3 (remove_quietly ?dir w3)") auto
  have f: "final (build ev h b w) = w5"
    using assms t p by (simp add: build_def tempDirectoryTask_def Let_def)
  obtain started where st: "getSrcs h b = started @ pending"
    "invokes w3 = invokes w2 @ map (\<lambda>s. Invoke (url s) ?dir (Some 1)) started"
    using invokes_build_task[OF t] by blast
  have "invokes w1 = invokes w"
    by (rule invokes_ensureExist[OF assms(1)])
  moreover have "invokes w2 = invokes w1"
    by (rule invokes_fs_mkdir_p[OF assms(2)])
  ultimately have "invokes (final (build ev h b w)) =
      invokes w @ map (\<lambda>s. Invoke (url s) ?dir (Some 1)) (getSrcs h b)"
    using st invokes_finish_pending[OF p] f by simp
  then show ?thesis
    by (simp add: invokes_def)
qed

text \<open>
  C10 fails on the code. The archive has one top directory \<^verbatim>\<open>pkg\<close> with one file, the
  working directory is \<^verbatim>\<open>/w\<close> and the temporary build directory \<^verbatim>\<open>/tmp/d\<close>. The pipeline is
  invoked with strip level 1, but for a zip archive the strip is done by renaming each leaf
  to \<open>stripDirs leaf 1\<close>, which has lost the root of the absolute path: the rename of
  \<^verbatim>\<open>/tmp/d/pkg/bin\<close> goes to \<^verbatim>\<open>tmp/d/bin\<close> below the working directory and fails. The
  pipeline ends with \<open>StripError\<close> and the file still below \<^verbatim>\<open>pkg\<close>: nothing is stripped,
  and the task of the build fails with that error.
\<close>

theorem build_zip_strip_fails:
  "downloadAndExtract sample_env ''http://h/pkg.zip'' ''/tmp/d'' (Some 1)
     (work_world\<lparr>root := Dir [(''tmp'', Dir [(''d'', Dir [])]), (''w'', Dir [])]\<rparr>) =
     (Inl (StripError 1 ''/tmp/d/pkg/bin'' (SysError ENOENT ''tmp/d/bin'')),
      \<lparr>root = Dir [(''tmp'', Dir [(''d'', Dir [(''pkg'', Dir [(''bin'', File ''elf'')])])]),
                   (''w'', Dir [])],
       cwd = [''w''],
       trace = [Invoke ''http://h/pkg.zip'' ''/tmp/d'' (Some 1), Fetch ''http://h/pkg.zip'',
                ZipExtract ''/tmp/f'' ''/tmp/d'', Rename ''/tmp/d/pkg/bin'' ''tmp/d/bin'']\<rparr>) \<and>
   detached (build sample_env linux pkg_builder work_world) =
     Some (Inl (StripError 1 ''/tmp/d/pkg/bin'' (SysError ENOENT ''tmp/d/bin''))) \<and>
   filter is_invoke (trace (final (build sample_env linux pkg_builder work_world))) =
     [Invoke ''http://h/pkg.zip'' ''/tmp/d'' (Some 1)]"
  by code_simp

section \<open>The move of the build directory\<close>

lemma diverge_if_no_prefix:
  "take (length p) q \<noteq> p \<Longrightarrow> take (length q) p \<noteq> q \<Longrightarrow> diverge p q"
proof (induction p arbitrary: q)
  case Nil
  then show ?case by simp
next
  case (Cons a p)
  then show ?case by (cases q) auto
qed

lemma node_at_append:
  "node_at (p @ q) r = (case node_at p r of Inl e \<Rightarrow> Inl e | Inr n \<Rightarrow> node_at q n)"
  by (induction p arbitrary: r) (auto split: fsnode.splits option.splits)

lemma node_at_below_nonempty:
  assumes "node_at (p @ q) r = Inr x" "q \<noteq> []"
  shows "\<exists>es. node_at p r = Inr (Dir es) \<and> es \<noteq> []"
proof -
  obtain c cs where q: "q = c # cs"
    using assms(2) by (cases q) auto
  obtain n where n: "node_at p r = Inr n" "node_at (c # cs) n = Inr x"
    using assms(1) q by (auto simp: node_at_append split: sum.splits)
  then obtain es where "n = Dir es" "map_of es c \<noteq> None"
    by (cases n) (auto split: option.splits)
  then show ?thesis
    using n(1) by (cases es) auto
qed

lemma node_at_remove_at_diverge:
  "remove_at p r = Inr r' \<Longrightarrow> diverge p q \<Longrightarrow> node_at q r' = node_at q r"
proof (induction p arbitrary: q r r')
  case Nil
  then show ?case by simp
next
  case (Cons c cs)
  obtain d ds where q: "q = d # ds"
    using Cons.prems(2) by (cases q) auto
  obtain es where r: "r = Dir es"
    using Cons.prems(1) by (cases r) auto
  obtain child where child: "map_of es c = Some child"
    using Cons.prems(1) r by (auto split: option.splits)
  show ?case
  proof (cases "c = d")
    case False
    then show ?thesis
      using Cons.prems(1) r child q
      by (auto simp: delete_conv' update_conv' split: if_splits sum.splits)
  next
    case True
    then have dv: "diverge cs ds"
      using Cons.prems(2) q by simp
    then have "cs \<noteq> []"
      by (cases cs) auto
    then obtain child' where c': "remove_at cs child = Inr child'" "r' = Dir (AList.update c child' es)"
      using Cons.prems(1) r child by (auto split: sum.splits)
    have "node_at ds child' = node_at ds child"
      by (rule Cons.IH[OF c'(1) dv])
    then show ?thesis
      using True r q child c'(2) by (simp add: update_conv')
  qed
qed

lemma lookup_node_at: "lookup w p = Inr n \<Longrightarrow> node_at (resolve w p) (root w) = Inr n"
  by (auto simp: lookup_def split: if_splits sum.splits)

lemma fs_rename_moves:
  assumes "fs_rename old new w = (Inr (), w')"
    and "resolve w old \<noteq> resolve w new"
  shows "node_at (resolve w new) (root w') = node_at (resolve w old) (root w)"
    and "\<exists>n. node_at (resolve w old) (root w) = Inr n"
    and "diverge (resolve w old) (resolve w new)"
    and "cwd w' = cwd w"
proof -
  let ?from = "resolve w old" and ?to = "resolve w new"
  obtain moved where lk: "lookup w old = Inr moved"
    using assms by (auto simp: fs_rename_def Let_def split: sum.splits)
  have moved: "node_at ?from (root w) = Inr moved"
    by (rule lookup_node_at[OF lk])
  have g: "new \<noteq> []" "\<not> (names_dir new \<and> \<not> is_dir moved)"
    using assms lk by (auto simp: fs_rename_def Let_def split: if_splits)
  have np: "take (length ?from) ?to \<noteq> ?from"
    using assms lk g by (auto simp: fs_rename_def Let_def split: if_splits)
  have ok: "rename_refused moved (node_at ?to (root w)) = None"
    using assms lk g np by (auto simp: fs_rename_def Let_def split: option.splits)
  obtain r1 r2 where r: "remove_at ?from (root w) = Inr r1" "put_at ?to moved r1 = Inr r2"
      "w' = (log_event (Rename old new) w)\<lparr>root := r2\<rparr>"
    using assms lk g np ok by (auto simp: fs_rename_def Let_def split: sum.splits)
  have nq: "take (length ?to) ?from \<noteq> ?to"
  proof
    assume pre: "take (length ?to) ?from = ?to"
    then have split: "?from = ?to @ drop (length ?to) ?from"
      by (metis append_take_drop_id)
    have ne: "drop (length ?to) ?from \<noteq> []"
      using split assms(2) by auto
    obtain es where "node_at ?to (root w) = Inr (Dir es)" "es \<noteq> []"
      using node_at_below_nonempty[of ?to "drop (length ?to) ?from" "root w" moved] split moved ne
      by auto
    then show False
      using ok by (simp add: rename_refused_def split: if_splits)
  qed
  show "diverge ?from ?to"
    by (rule diverge_if_no_prefix[OF np nq])
  show "node_at ?to (root w') = node_at ?from (root w)"
    using node_at_put_at[OF r(2)] r(3) moved by simp
  show "\<exists>n. node_at ?from (root w) = Inr n"
    using moved by blast
  show "cwd w' = cwd w"
    using r(3) by (simp add: log_event_def)
qed

lemma resolve_cwd: "cwd w' = cwd w \<Longrightarrow> resolve w' p = resolve w p"
  by (simp add: resolve_def)

lemma node_at_remove_quietly_diverge:
  assumes "diverge (resolve w p) q"
  shows "node_at q (root (remove_quietly p w)) = node_at q (root w)"
proof (cases "remove_at (resolve w p) (root w)")
  case (Inl e)
  then show ?thesis by (simp add: remove_quietly_def)
next
  case (Inr r)
  then show ?thesis
    using node_at_remove_at_diverge[OF Inr assms] by (simp add: remove_quietly_def)
qed

lemma download_each_config:
  "download_each ev srcs dest b w = (r, pending, b', w') \<Longrightarrow>
     fileRemaps b' = fileRemaps b \<and> destination b' = destination b \<and> cmds b' = cmds b \<and>
     (r = Inr () \<longrightarrow> pending = [])"
proof (induction srcs arbitrary: b w)
  case Nil
  then show ?case by auto
next
  case (Cons s rest)
  obtain r1 w1 where d: "downloadAndExtract ev (url s) dest (Some 1) w = (r1, w1)"
    by (cases "downloadAndExtract ev (url s) dest (Some 1) w") auto
  show ?case
  proof (cases r1)
    case (Inl err)
    then show ?thesis
      using Cons.prems d by auto
  next
    case (Inr unit)
    then have "download_each ev rest dest (b\<lparr>downloaded := downloaded b @ [url s]\<rparr>) w1 =
                 (r, pending, b', w')"
      using Cons.prems d by simp
    from Cons.IH[OF this] show ?thesis by simp
  qed
qed

lemma build_sources_config:
  assumes "build_sources ev h dir b w = (Inr (), pending, b', w')"
  shows "fileRemaps b' = fileRemaps b \<and> destination b' = destination b \<and> pending = []"
proof -
  obtain r1 p1 b1 w1 where d: "BinBuilder_download ev h dir b w = (r1, p1, b1, w1)"
    by (cases "BinBuilder_download ev h dir b w") auto
  have r1: "r1 = Inr ()" "b' = b1" "pending = p1"
    using assms d by (cases r1; auto simp: build_sources_def split: prod.splits)+
  have ne: "getSrcs h b \<noteq> []"
    using d r1(1) by (auto simp: BinBuilder_download_def)
  then have "download_each ev (getSrcs h b) dir b w = (Inr (), p1, b1, w1)"
    using d r1(1) by (simp add: BinBuilder_download_def)
  from download_each_config[OF this] r1 show ?thesis by simp
qed

text \<open>
  What the task of a build does with an empty remap list: when it settles without error,
  the node at the target directory is the node that stood at the temporary build directory
  once the downloads and the commands had run. The temporary directory is not the target
  itself.
\<close>

lemma task_moves_build_dir:
  assumes "fileRemaps b = []"
    and "ensureExist b w = (Inr (), w1)"
    and "buildDir = temp_dir_name ev w1"
    and "fs_mkdir_p buildDir w1 = (Inr (), w2)"
    and "build_sources ev h buildDir b w2 = (Inr (), pending, b3, w3)"
    and "detached (build ev h b w) = Some (Inr ())"
    and "resolve w3 buildDir \<noteq> resolve w3 (destination b)"
  shows "node_at (resolve w3 (destination b)) (root (final (build ev h b w))) =
           node_at (resolve w3 buildDir) (root w3) \<and>
         (\<exists>n. node_at (resolve w3 buildDir) (root w3) = Inr n)"
proof -
  have cfg: "fileRemaps b3 = []" "destination b3 = destination b" "pending = []"
    using build_sources_config[OF assms(5)] assms(1) by simp_all
  obtain r4 w4 where mv: "fs_rename buildDir (destination b) w3 = (r4, w4)"
    by (cases "fs_rename buildDir (destination b) w3") auto
  have task: "build_task ev h buildDir b w2 = (r4, [], b3, w4)"
    using assms(5) cfg mv by (simp add: build_task_def remap_files_def)
  have out: "build ev h b w =
      \<lparr>promise = Inr (), detached = Some r4, builder = b3, final = remove_quietly buildDir w4\<rparr>"
    using assms(2,3,4) task by (simp add: build_def tempDirectoryTask_def Let_def)
  then have r4: "r4 = Inr ()"
    using assms(6) by simp
  note m = fs_rename_moves[OF mv[unfolded r4] assms(7)]
  have "diverge (resolve w4 buildDir) (resolve w3 (destination b))"
    using m(3) resolve_cwd[OF m(4)] by simp
  from node_at_remove_quietly_diverge[OF this] m(1) m(2) out
  show ?thesis by simp
qed

section \<open>The promise of build\<close>

text \<open>
  The commands run in registration order in the build directory, and none runs after the
  first that fails or exits with a code other than 0. A result of \<open>execa\<close> has exit code 0,
  so the loop never raises its own \<open>BuildError\<close>. The promise that \<open>build\<close> returns settles
  as \<open>ensureExist\<close> did, whatever the phases of the task do afterwards.
\<close>

lemma run_commands_trace:
  "run_commands ev cs dir w = (r, w') \<Longrightarrow>
     \<exists>n. n \<le> length cs \<and>
         trace w' = trace w @ map (\<lambda>c. Exec c dir) (take n cs) \<and>
         (r = Inr () \<longrightarrow> n = length cs)"
proof (induction cs arbitrary: w)
  case Nil
  then show ?case by simp
next
  case (Cons c rest)
  obtain r1 w1 where e: "execa ev c dir w = (r1, w1)"
    by (cases "execa ev c dir w") auto
  have t1: "trace w1 = trace w @ [Exec c dir]"
    using e by (auto simp: execa_def log_event_def split: prod.splits)
  show ?case
  proof (cases "r1 = Inr 0")
    case False
    then have "w' = w1" "r \<noteq> Inr ()"
      using Cons.prems e by (auto split: sum.splits if_splits)
    then show ?thesis
      using t1 by (intro exI[of _ 1]) simp
  next
    case True
    then have "run_commands ev rest dir w1 = (r, w')"
      using Cons.prems e by simp
    then obtain n where n: "n \<le> length rest"
      "trace w' = trace w1 @ map (\<lambda>c. Exec c dir) (take n rest)"
      "r = Inr () \<longrightarrow> n = length rest"
      using Cons.IH by blast
    show ?thesis
      using n t1 by (intro exI[of _ "Suc n"]) simp
  qed
qed

lemma execa_exit_code: "execa ev c dir w = (Inr n, w') \<Longrightarrow> n = 0"
  by (auto simp: execa_def split: prod.splits sum.splits if_splits)

lemma build_promise: "promise (build ev h b w) = fst (ensureExist b w)"
  by (simp add: build_def split: prod.splits sum.splits)

text \<open>
  C1 fails on the code. No source matches the host, the download phase raises
  \<open>NoBinary\<close>, and the promise of \<open>build\<close> has resolved all the same: the error stays
  with the promise of the task, which nothing awaits.
\<close>

theorem build_resolves_when_download_fails:
  "promise (build sample_env linux (new_BinBuilder\<lparr>destination := ''out''\<rparr>) tmp_world) = Inr () \<and>
   detached (build sample_env linux (new_BinBuilder\<lparr>destination := ''out''\<rparr>) tmp_world) =
     Some (Inl (NoBinary ''linux-x64''))"
  by code_simp

text \<open>
  C6 fails on the code for the same reason. Of the commands \<^verbatim>\<open>true\<close>, \<^verbatim>\<open>false\<close>,
  \<^verbatim>\<open>make install\<close> the first two run in order in the build directory and the third does
  not, and the task fails with the rejection of \<^verbatim>\<open>execa\<close> for \<^verbatim>\<open>false\<close> and exit code 1;
  but the promise of \<open>build\<close> has resolved.
\<close>

theorem build_resolves_when_command_fails:
  "promise (build sample_env linux failing_builder tmp_world) = Inr () \<and>
   detached (build sample_env linux failing_builder tmp_world) = Some (Inl (ExecaError ''false'' 1)) \<and>
   filter is_exec (trace (final (build sample_env linux failing_builder tmp_world))) =
     [Exec \<lparr>cmd = ''true'', args = None\<rparr> ''/tmp/d'',
      Exec \<lparr>cmd = ''false'', args = None\<rparr> ''/tmp/d'']"
  by code_simp

text \<open>
  C5 fails on the code, by the same defect. The builder has an empty remap list and its
  build succeeds, in that the promise of \<open>build\<close> resolves; but the task fails at its second
  command, the build directory, which held the entries of the archive, is never moved, and
  the target directory \<^verbatim>\<open>out\<close> is left empty. Even for \<open>sample_builder\<close>, whose task
  succeeds, the target is empty in the world that \<open>ensureExist\<close> leaves, which is where the
  promise resolves.
\<close>

theorem build_succeeds_with_empty_target:
  "fileRemaps failing_builder = [] \<and>
   promise (build sample_env linux failing_builder tmp_world) = Inr () \<and>
   lookup (final (build sample_env linux failing_builder tmp_world)) ''out'' = Inr (Dir []) \<and>
   lookup (snd (snd (snd (build_sources sample_env linux ''/tmp/d'' failing_builder
                 (snd (fs_mkdir_p ''/tmp/d'' (snd (ensureExist failing_builder tmp_world))))))))
      ''/tmp/d'' =
     Inr (Dir [(''top'', Dir []), (''f'', File ''2''), (''sub'', Dir [(''g'', File [])])]) \<and>
   promise (build sample_env linux sample_builder tmp_world) = Inr () \<and>
   lookup (snd (ensureExist sample_builder tmp_world)) ''out'' = Inr (Dir [])"
  by code_simp

end
